theory Spec2Isabelle
  imports Main "HOL-Library.Word" "HOL-Library.Multiset"
begin

unbundle bit_operations_syntax

section \<open>The demon simulator (sim.c): data model\<close>

text \<open>
  The simulator keeps one \<open>State\<close> per battle: the demon, the player's hit points, four
  card sets (deck, hand, field, grave), the runes and the two seed words of the random
  number generator. Every ability, buff and debuff is an \<open>Attr\<close>, a pair of an attribute
  type (a value of the C enum \<open>attrTypes\<close>) and a level.

  C \<open>int\<close> values are modelled as HOL integers: signed overflow is undefined in C, so the
  model describes the executions in which no signed overflow happens. The seeds are
  \<open>unsigned int\<close> and wrap around; they are 32-bit words.
\<close>

subsection \<open>Constants\<close>

abbreviation (input) FIRST_DEMON_ROUND :: int where "FIRST_DEMON_ROUND \<equiv> 5"
abbreviation (input) FIRST_PLAYER_ROUND :: int where "FIRST_PLAYER_ROUND \<equiv> 6"
abbreviation (input) MAX_ATTR :: nat where "MAX_ATTR \<equiv> 40"
abbreviation (input) MAX_RUNES :: nat where "MAX_RUNES \<equiv> 4"
abbreviation (input) MAX_CARDS_IN_SET :: nat where "MAX_CARDS_IN_SET \<equiv> 20"
abbreviation (input) MAX_CARDS_IN_HAND :: nat where "MAX_CARDS_IN_HAND \<equiv> 5"

text \<open>The enum \<open>attrTypes\<close>, in the order of the source (the first enumerator is 0).\<close>

abbreviation (input) ATTR_NONE :: int where "ATTR_NONE \<equiv> 0"
abbreviation (input) ATTR_ADVANCED_STRIKE :: int where "ATTR_ADVANCED_STRIKE \<equiv> 1"
abbreviation (input) ATTR_BACKSTAB :: int where "ATTR_BACKSTAB \<equiv> 2"
abbreviation (input) ATTR_BACKSTAB_BUFF :: int where "ATTR_BACKSTAB_BUFF \<equiv> 3"
abbreviation (input) ATTR_BITE :: int where "ATTR_BITE \<equiv> 4"
abbreviation (input) ATTR_BLOODSUCKER :: int where "ATTR_BLOODSUCKER \<equiv> 5"
abbreviation (input) ATTR_BLOODTHIRSTY :: int where "ATTR_BLOODTHIRSTY \<equiv> 6"
abbreviation (input) ATTR_CHAIN_ATTACK :: int where "ATTR_CHAIN_ATTACK \<equiv> 7"
abbreviation (input) ATTR_CONCENTRATE :: int where "ATTR_CONCENTRATE \<equiv> 8"
abbreviation (input) ATTR_COUNTERATTACK :: int where "ATTR_COUNTERATTACK \<equiv> 9"
abbreviation (input) ATTR_CRAZE :: int where "ATTR_CRAZE \<equiv> 10"
abbreviation (input) ATTR_CURSE :: int where "ATTR_CURSE \<equiv> 11"
abbreviation (input) ATTR_D_PRAYER :: int where "ATTR_D_PRAYER \<equiv> 12"
abbreviation (input) ATTR_D_REANIMATE :: int where "ATTR_D_REANIMATE \<equiv> 13"
abbreviation (input) ATTR_D_REINCARNATE :: int where "ATTR_D_REINCARNATE \<equiv> 14"
abbreviation (input) ATTR_DAMNATION :: int where "ATTR_DAMNATION \<equiv> 15"
abbreviation (input) ATTR_DEAD :: int where "ATTR_DEAD \<equiv> 16"
abbreviation (input) ATTR_DESTROY :: int where "ATTR_DESTROY \<equiv> 17"
abbreviation (input) ATTR_DEXTERITY :: int where "ATTR_DEXTERITY \<equiv> 18"
abbreviation (input) ATTR_DODGE :: int where "ATTR_DODGE \<equiv> 19"
abbreviation (input) ATTR_EVASION :: int where "ATTR_EVASION \<equiv> 20"
abbreviation (input) ATTR_EXILE :: int where "ATTR_EXILE \<equiv> 21"
abbreviation (input) ATTR_FIRE_GOD :: int where "ATTR_FIRE_GOD \<equiv> 22"
abbreviation (input) ATTR_FOREST :: int where "ATTR_FOREST \<equiv> 23"
abbreviation (input) ATTR_FOREST_ATK :: int where "ATTR_FOREST_ATK \<equiv> 24"
abbreviation (input) ATTR_FOREST_ATK_BUFF :: int where "ATTR_FOREST_ATK_BUFF \<equiv> 25"
abbreviation (input) ATTR_FOREST_HP :: int where "ATTR_FOREST_HP \<equiv> 26"
abbreviation (input) ATTR_FOREST_HP_BUFF :: int where "ATTR_FOREST_HP_BUFF \<equiv> 27"
abbreviation (input) ATTR_GUARD :: int where "ATTR_GUARD \<equiv> 28"
abbreviation (input) ATTR_HEALING :: int where "ATTR_HEALING \<equiv> 29"
abbreviation (input) ATTR_HOT_CHASE :: int where "ATTR_HOT_CHASE \<equiv> 30"
abbreviation (input) ATTR_ICE_SHIELD :: int where "ATTR_ICE_SHIELD \<equiv> 31"
abbreviation (input) ATTR_IMMUNITY :: int where "ATTR_IMMUNITY \<equiv> 32"
abbreviation (input) ATTR_LACERATE :: int where "ATTR_LACERATE \<equiv> 33"
abbreviation (input) ATTR_LACERATE_BUFF :: int where "ATTR_LACERATE_BUFF \<equiv> 34"
abbreviation (input) ATTR_MANA_CORRUPT :: int where "ATTR_MANA_CORRUPT \<equiv> 35"
abbreviation (input) ATTR_MANIA :: int where "ATTR_MANIA \<equiv> 36"
abbreviation (input) ATTR_MTN :: int where "ATTR_MTN \<equiv> 37"
abbreviation (input) ATTR_MTN_ATK :: int where "ATTR_MTN_ATK \<equiv> 38"
abbreviation (input) ATTR_MTN_ATK_BUFF :: int where "ATTR_MTN_ATK_BUFF \<equiv> 39"
abbreviation (input) ATTR_MTN_HP :: int where "ATTR_MTN_HP \<equiv> 40"
abbreviation (input) ATTR_MTN_HP_BUFF :: int where "ATTR_MTN_HP_BUFF \<equiv> 41"
abbreviation (input) ATTR_OBSTINACY :: int where "ATTR_OBSTINACY \<equiv> 42"
abbreviation (input) ATTR_PARRY :: int where "ATTR_PARRY \<equiv> 43"
abbreviation (input) ATTR_PRAYER :: int where "ATTR_PRAYER \<equiv> 44"
abbreviation (input) ATTR_QS_PRAYER :: int where "ATTR_QS_PRAYER \<equiv> 45"
abbreviation (input) ATTR_QS_REGENERATE :: int where "ATTR_QS_REGENERATE \<equiv> 46"
abbreviation (input) ATTR_QS_REINCARNATE :: int where "ATTR_QS_REINCARNATE \<equiv> 47"
abbreviation (input) ATTR_REANIMATE :: int where "ATTR_REANIMATE \<equiv> 48"
abbreviation (input) ATTR_REANIM_SICKNESS :: int where "ATTR_REANIM_SICKNESS \<equiv> 49"
abbreviation (input) ATTR_REFLECTION :: int where "ATTR_REFLECTION \<equiv> 50"
abbreviation (input) ATTR_REGENERATE :: int where "ATTR_REGENERATE \<equiv> 51"
abbreviation (input) ATTR_REINCARNATE :: int where "ATTR_REINCARNATE \<equiv> 52"
abbreviation (input) ATTR_REJUVENATE :: int where "ATTR_REJUVENATE \<equiv> 53"
abbreviation (input) ATTR_RESISTANCE :: int where "ATTR_RESISTANCE \<equiv> 54"
abbreviation (input) ATTR_RESURRECTION :: int where "ATTR_RESURRECTION \<equiv> 55"
abbreviation (input) ATTR_RETALIATION :: int where "ATTR_RETALIATION \<equiv> 56"
abbreviation (input) ATTR_SACRIFICE :: int where "ATTR_SACRIFICE \<equiv> 57"
abbreviation (input) ATTR_SNIPE :: int where "ATTR_SNIPE \<equiv> 58"
abbreviation (input) ATTR_SWAMP :: int where "ATTR_SWAMP \<equiv> 59"
abbreviation (input) ATTR_SWAMP_ATK :: int where "ATTR_SWAMP_ATK \<equiv> 60"
abbreviation (input) ATTR_SWAMP_ATK_BUFF :: int where "ATTR_SWAMP_ATK_BUFF \<equiv> 61"
abbreviation (input) ATTR_SWAMP_HP :: int where "ATTR_SWAMP_HP \<equiv> 62"
abbreviation (input) ATTR_SWAMP_HP_BUFF :: int where "ATTR_SWAMP_HP_BUFF \<equiv> 63"
abbreviation (input) ATTR_TOXIC_CLOUDS :: int where "ATTR_TOXIC_CLOUDS \<equiv> 64"
abbreviation (input) ATTR_TRAP :: int where "ATTR_TRAP \<equiv> 65"
abbreviation (input) ATTR_TRAP_BUFF :: int where "ATTR_TRAP_BUFF \<equiv> 66"
abbreviation (input) ATTR_TUNDRA :: int where "ATTR_TUNDRA \<equiv> 67"
abbreviation (input) ATTR_TUNDRA_ATK :: int where "ATTR_TUNDRA_ATK \<equiv> 68"
abbreviation (input) ATTR_TUNDRA_ATK_BUFF :: int where "ATTR_TUNDRA_ATK_BUFF \<equiv> 69"
abbreviation (input) ATTR_TUNDRA_HP :: int where "ATTR_TUNDRA_HP \<equiv> 70"
abbreviation (input) ATTR_TUNDRA_HP_BUFF :: int where "ATTR_TUNDRA_HP_BUFF \<equiv> 71"
abbreviation (input) ATTR_VENDETTA :: int where "ATTR_VENDETTA \<equiv> 72"
abbreviation (input) ATTR_WARPATH :: int where "ATTR_WARPATH \<equiv> 73"
abbreviation (input) ATTR_WICKED_LEECH :: int where "ATTR_WICKED_LEECH \<equiv> 74"
abbreviation (input) ATTR_ARCTIC_FREEZE :: int where "ATTR_ARCTIC_FREEZE \<equiv> 75"
abbreviation (input) ATTR_BLOOD_STONE :: int where "ATTR_BLOOD_STONE \<equiv> 76"
abbreviation (input) ATTR_CLEAR_SPRING :: int where "ATTR_CLEAR_SPRING \<equiv> 77"
abbreviation (input) ATTR_FROST_BITE :: int where "ATTR_FROST_BITE \<equiv> 78"
abbreviation (input) ATTR_RED_VALLEY :: int where "ATTR_RED_VALLEY \<equiv> 79"
abbreviation (input) ATTR_LORE :: int where "ATTR_LORE \<equiv> 80"
abbreviation (input) ATTR_LEAF :: int where "ATTR_LEAF \<equiv> 81"
abbreviation (input) ATTR_REVIVAL :: int where "ATTR_REVIVAL \<equiv> 82"
abbreviation (input) ATTR_FIRE_FORGE :: int where "ATTR_FIRE_FORGE \<equiv> 83"
abbreviation (input) ATTR_STONEWALL :: int where "ATTR_STONEWALL \<equiv> 84"
abbreviation (input) ATTR_SPRING_BREEZE :: int where "ATTR_SPRING_BREEZE \<equiv> 85"
abbreviation (input) ATTR_THUNDER_SHIELD :: int where "ATTR_THUNDER_SHIELD \<equiv> 86"
abbreviation (input) ATTR_NIMBLE_SOUL :: int where "ATTR_NIMBLE_SOUL \<equiv> 87"
abbreviation (input) ATTR_DIRT :: int where "ATTR_DIRT \<equiv> 88"
abbreviation (input) ATTR_FLYING_STONE :: int where "ATTR_FLYING_STONE \<equiv> 89"
abbreviation (input) ATTR_TSUNAMI :: int where "ATTR_TSUNAMI \<equiv> 90"

subsection \<open>Structures\<close>

record Attr =
  type :: int
  level :: int

text \<open>
  A card: the fixed part (\<open>baseAttr\<close> is the array of \<open>MAX_ATTR\<close> entries) and the current
  state. The array \<open>attr\<close> and its count \<open>numAttr\<close> are one list: \<open>numAttr\<close> is its length,
  and the source never reads \<open>attr\<close> at or beyond \<open>numAttr\<close>.
\<close>

record Card =
  name :: string
  cost :: int
  timing :: int
  baseAtk :: int
  baseHp :: int
  baseAttr :: "Attr list"
  curTiming :: int
  atk :: int
  curBaseAtk :: int
  hp :: int
  maxHp :: int
  attr :: "Attr list"

abbreviation numAttr :: "Card \<Rightarrow> nat" where "numAttr c \<equiv> length (attr c)"

definition DeadAttr :: Attr where
  "DeadAttr = \<lparr>type = ATTR_DEAD, level = 0\<rparr>"

section \<open>Attributes of a card\<close>

text \<open>\<open>InitCard\<close>: the loop over all \<open>MAX_ATTR\<close> entries of \<open>baseAttr\<close> copies the entries
  whose type is not \<open>ATTR_NONE\<close> to the next free slot of \<open>attr\<close>.\<close>

fun InitCard_copy :: "Attr list \<Rightarrow> Attr list \<Rightarrow> Attr list" where
  "InitCard_copy [] acc = acc"
| "InitCard_copy (b # bs) acc =
     (if type b \<noteq> ATTR_NONE then InitCard_copy bs (acc @ [b]) else InitCard_copy bs acc)"

definition InitCard :: "Card \<Rightarrow> Card" where
  "InitCard c =
     c\<lparr>curTiming := timing c,
       atk := baseAtk c,
       curBaseAtk := baseAtk c,
       hp := baseHp c,
       maxHp := baseHp c,
       attr := InitCard_copy (baseAttr c) []\<rparr>"

text \<open>\<open>HasAttr\<close> returns the level of the first attribute of the given type (the source
  returns true and stores the level through \<open>pLevel\<close>), or \<open>None\<close> for false.\<close>

fun HasAttr_loop :: "Attr list \<Rightarrow> int \<Rightarrow> int option" where
  "HasAttr_loop [] attrType = None"
| "HasAttr_loop (a # as) attrType =
     (if type a = attrType then Some (level a) else HasAttr_loop as attrType)"

definition HasAttr :: "Card \<Rightarrow> int \<Rightarrow> int option" where
  "HasAttr c attrType = HasAttr_loop (attr c) attrType"

definition hasAttr :: "Card \<Rightarrow> int \<Rightarrow> bool" where
  "hasAttr c attrType \<longleftrightarrow> HasAttr c attrType \<noteq> None"

text \<open>The two ways the process ends early (\<open>exit(1)\<close>), and fuel running out in the
  model of the recursion between \<open>RemoveCard\<close>, \<open>SimReanimate\<close> and \<open>CardPlayedToField\<close>.\<close>

datatype error = TooManyAttrs | TooManyCards | OutOfFuel

definition bindE :: "error + 'a \<Rightarrow> ('a \<Rightarrow> error + 'b) \<Rightarrow> error + 'b" where
  "bindE m f = (case m of Inl e \<Rightarrow> Inl e | Inr x \<Rightarrow> f x)"

definition AddAttr :: "Card \<Rightarrow> Attr \<Rightarrow> error + Card" where
  "AddAttr c a =
     (if numAttr c \<ge> MAX_ATTR then Inl TooManyAttrs else Inr (c\<lparr>attr := attr c @ [a]\<rparr>))"

text \<open>The shifting loop \<open>for (j=i; j<n; j++) a[j] = a[j+1]\<close>, shared by \<open>RemoveAttr\<close> and
  \<open>RemoveCardFromSet\<close>.\<close>

function shiftLeft :: "nat \<Rightarrow> nat \<Rightarrow> 'a list \<Rightarrow> 'a list" where
  "shiftLeft j n xs = (if j < n then shiftLeft (Suc j) n (xs[j := xs ! Suc j]) else xs)"
  by pat_completeness auto
termination
  by (relation "measure (\<lambda>(j, n, xs). n - j)") auto

declare shiftLeft.simps [simp del]

text \<open>\<open>RemoveAttr\<close>: on a match the count drops by one, the entries above \<open>i\<close> move down,
  and \<open>i--\<close> followed by the loop's \<open>i++\<close> looks at index \<open>i\<close> again; unless the level is
  \<open>-1\<close>, the function returns after the first removal.\<close>

function RemoveAttr_loop :: "nat \<Rightarrow> int \<Rightarrow> int \<Rightarrow> Attr list \<Rightarrow> Attr list" where
  "RemoveAttr_loop i attrType lvl xs =
     (if i < length xs then
        (if type (xs ! i) = attrType \<and> (level (xs ! i) = lvl \<or> lvl = -1) then
           (let n = length xs - 1;
                xs' = take n (shiftLeft i n xs)
            in if lvl \<noteq> -1 then xs' else RemoveAttr_loop i attrType lvl xs')
         else RemoveAttr_loop (Suc i) attrType lvl xs)
      else xs)"
  by pat_completeness auto
termination
  by (relation "measure (\<lambda>(i, t, l, xs). 2 * length xs - i)") auto

declare RemoveAttr_loop.simps [simp del]

definition RemoveAttr :: "Card \<Rightarrow> int \<Rightarrow> int \<Rightarrow> Card" where
  "RemoveAttr c attrType lvl = c\<lparr>attr := RemoveAttr_loop 0 attrType lvl (attr c)\<rparr>"

subsection \<open>A card for examples\<close>

text \<open>A card with two Dodge abilities of level 60, one of level 30 and a Parry; every
  other entry of \<open>baseAttr\<close> is \<open>ATTR_NONE\<close>.\<close>

definition dodger :: Card where
  "dodger =
     \<lparr>name = ''Dodger'', cost = 10, timing = 2, baseAtk = 100, baseHp = 500,
      baseAttr = [\<lparr>type = ATTR_DODGE, level = 60\<rparr>, \<lparr>type = ATTR_PARRY, level = 10\<rparr>,
                  \<lparr>type = ATTR_DODGE, level = 30\<rparr>, \<lparr>type = ATTR_DODGE, level = 60\<rparr>]
                 @ replicate 36 \<lparr>type = ATTR_NONE, level = 0\<rparr>,
      curTiming = 2, atk = 100, curBaseAtk = 100, hp = 500, maxHp = 500,
      attr = [\<lparr>type = ATTR_DODGE, level = 60\<rparr>, \<lparr>type = ATTR_PARRY, level = 10\<rparr>,
              \<lparr>type = ATTR_DODGE, level = 30\<rparr>, \<lparr>type = ATTR_DODGE, level = 60\<rparr>]\<rparr>"

section \<open>Card sets, runes and the state\<close>

text \<open>
  A card set is the array of \<open>MAX_CARDS_IN_SET\<close> cards and the count \<open>numCards\<close>. The
  array is kept whole, slots at and beyond \<open>numCards\<close> included: a pointer to a card of
  the field (an index here) can outlive a compaction of the field, and the source then
  reads and writes whatever the slot holds.
\<close>

record CardSet =
  numCards :: nat
  cards :: "Card list"

text \<open>A rune; the fields \<open>name\<close> and \<open>attr\<close> of the source are \<open>runeName\<close> and \<open>runeAttr\<close>
  here (the card has fields of these names).\<close>

record Rune =
  runeName :: string
  runeAttr :: Attr
  maxCharges :: int
  chargesUsed :: int
  usedThisRound :: int

text \<open>The state; the player's \<open>hp\<close> and \<open>maxHp\<close> of the source are \<open>playerHp\<close> and
  \<open>playerMaxHp\<close> here.\<close>

record State =
  dmgDone :: int
  playerHp :: int
  playerMaxHp :: int
  round :: int
  numRunes :: nat
  demon :: Card
  deck :: CardSet
  hand :: CardSet
  field :: CardSet
  grave :: CardSet
  runes :: "Rune list"
  seedW :: "32 word"
  seedZ :: "32 word"

text \<open>The globals that a battle reads: \<open>maxRounds\<close> and \<open>avgConcentrate\<close>.\<close>

record Config =
  maxRounds :: int
  avgConcentrate :: bool

definition DeadCard :: Card where
  "DeadCard =
     \<lparr>name = ''Dead Card'', cost = 0, timing = 0, baseAtk = 0, baseHp = 0,
      baseAttr = \<lparr>type = ATTR_DEAD, level = 0\<rparr> # replicate 39 \<lparr>type = ATTR_NONE, level = 0\<rparr>,
      curTiming = 0, atk = 0, curBaseAtk = 0, hp = 0, maxHp = 0,
      attr = [\<lparr>type = ATTR_DEAD, level = 0\<rparr>]\<rparr>"

subsection \<open>Random numbers\<close>

definition myRand :: "State \<Rightarrow> 32 word \<times> State" where
  "myRand state =
     (let w = 18000 * (seedW state AND 65535) + drop_bit 16 (seedW state);
          z = 36969 * (seedZ state AND 65535) + drop_bit 16 (seedZ state)
      in (push_bit 16 z + w, state\<lparr>seedW := w, seedZ := z\<rparr>))"

text \<open>\<open>Rnd\<close>: the remainder of the unsigned division by the range. No call of the source
  passes a range of 0.\<close>

definition Rnd :: "State \<Rightarrow> nat \<Rightarrow> nat \<times> State" where
  "Rnd state rng = (let (r, state') = myRand state in (unat r mod rng, state'))"

subsection \<open>Adding and removing cards\<close>

text \<open>\<open>RemoveCardFromSet\<close> is only called on a set that holds a card, so the count does
  not go below 0. The last slot keeps its old card.\<close>

definition RemoveCardFromSet :: "CardSet \<Rightarrow> nat \<Rightarrow> CardSet" where
  "RemoveCardFromSet cs n =
     cs\<lparr>numCards := numCards cs - 1, cards := shiftLeft n (numCards cs - 1) (cards cs)\<rparr>"

definition AddCardToSet :: "CardSet \<Rightarrow> Card \<Rightarrow> error + CardSet" where
  "AddCardToSet cs c =
     (if numCards cs \<ge> MAX_CARDS_IN_SET then Inl TooManyCards
      else Inr (cs\<lparr>cards := (cards cs)[numCards cs := c], numCards := numCards cs + 1\<rparr>))"

subsection \<open>A state for examples\<close>

text \<open>A card as zeroed memory holds it, an empty card set, and a state whose field holds
  two living cards around the placeholder of a dead one.\<close>

definition zeroCard :: Card where
  "zeroCard =
     \<lparr>name = [], cost = 0, timing = 0, baseAtk = 0, baseHp = 0,
      baseAttr = replicate 40 \<lparr>type = ATTR_NONE, level = 0\<rparr>,
      curTiming = 0, atk = 0, curBaseAtk = 0, hp = 0, maxHp = 0, attr = []\<rparr>"

definition zeroSet :: CardSet where
  "zeroSet = \<lparr>numCards = 0, cards = replicate 20 zeroCard\<rparr>"

definition exField :: CardSet where
  "exField = \<lparr>numCards = 3, cards = [dodger, DeadCard, dodger] @ replicate 17 zeroCard\<rparr>"

definition exState :: State where
  "exState =
     \<lparr>dmgDone = 0, playerHp = 1000, playerMaxHp = 1000, round = 1, numRunes = 0,
      demon = dodger, deck = zeroSet, hand = zeroSet, field = exField, grave = zeroSet,
      runes = [], seedW = 1, seedZ = 2\<rparr>"

section \<open>Picking cards\<close>

text \<open>
  \<open>PickNCards\<close>. The array \<open>ret\<close> is the list of its first \<open>numAlive\<close> entries: the first
  loop writes exactly these, and the later loops read and write only below \<open>numAlive\<close>.
\<close>

function PickNCards_count :: "nat \<Rightarrow> CardSet \<Rightarrow> nat list \<Rightarrow> nat list" where
  "PickNCards_count i cs ret =
     (if i < numCards cs then
        PickNCards_count (Suc i) cs (if hp (cards cs ! i) > 0 then ret @ [i] else ret)
      else ret)"
  by pat_completeness auto
termination
  by (relation "measure (\<lambda>(i, cs, ret). numCards cs - i)") auto

declare PickNCards_count.simps [simp del]

function PickNCards_pick :: "nat \<Rightarrow> int \<Rightarrow> nat \<Rightarrow> nat list \<Rightarrow> State \<Rightarrow> nat list \<times> State" where
  "PickNCards_pick i n numAlive ret state =
     (if int i < n then
        (let (r, state') = Rnd state (numAlive - 1 - i);
             ret' = (if r \<noteq> 0 then ret[i := ret ! (i + r), i + r := ret ! i] else ret)
         in PickNCards_pick (Suc i) n numAlive ret' state')
      else (ret, state))"
  by pat_completeness auto
termination
  by (relation "measure (\<lambda>(i, n, numAlive, ret, state). nat (n - int i))") auto

declare PickNCards_pick.simps [simp del]

function PickNCards_lowest :: "nat \<Rightarrow> int \<Rightarrow> nat list \<Rightarrow> nat \<Rightarrow> nat \<Rightarrow> nat \<times> nat" where
  "PickNCards_lowest j n ret lowest lowestIndex =
     (if int j < n then
        (if ret ! j < lowest then PickNCards_lowest (Suc j) n ret (ret ! j) j
         else PickNCards_lowest (Suc j) n ret lowest lowestIndex)
      else (lowest, lowestIndex))"
  by pat_completeness auto
termination
  by (relation "measure (\<lambda>(j, n, ret, lowest, lowestIndex). nat (n - int j))") auto

declare PickNCards_lowest.simps [simp del]

function PickNCards_sort :: "nat \<Rightarrow> int \<Rightarrow> nat list \<Rightarrow> nat list" where
  "PickNCards_sort i n ret =
     (if int i < n - 1 then
        (let (lowest, lowestIndex) = PickNCards_lowest (Suc i) n ret (ret ! i) 0;
             ret' = (if ret ! i \<noteq> lowest
                     then ret[i := ret ! lowestIndex, lowestIndex := ret ! i] else ret)
         in PickNCards_sort (Suc i) n ret')
      else ret)"
  by pat_completeness auto
termination
  by (relation "measure (\<lambda>(i, n, ret). nat (n - int i))") auto

declare PickNCards_sort.simps [simp del]

text \<open>The result: the count returned, the array \<open>ret\<close> and the state (with its seeds
  advanced).\<close>

definition PickNCards :: "State \<Rightarrow> CardSet \<Rightarrow> int \<Rightarrow> int \<times> nat list \<times> State" where
  "PickNCards state cs n =
     (let ret = PickNCards_count 0 cs [];
          numAlive = length ret;
          n = min n (int numAlive)
      in if n = int numAlive then (n, ret, state)
         else (let (ret', state') = PickNCards_pick 0 n numAlive ret state
               in (n, PickNCards_sort 0 n ret', state')))"

section \<open>The field: cards addressed by index\<close>

text \<open>
  A \<open>Card *\<close> of the source that points into the field is the index of the slot. The
  slot a pointer names stays the same when the field is compacted, whatever card the
  slot then holds.
\<close>

definition fieldCard :: "State \<Rightarrow> nat \<Rightarrow> Card" where
  "fieldCard state i = cards (field state) ! i"

definition setFieldCard :: "State \<Rightarrow> nat \<Rightarrow> Card \<Rightarrow> State" where
  "setFieldCard state i c = state\<lparr>field := (field state)\<lparr>cards := (cards (field state))[i := c]\<rparr>\<rparr>"

lemma bindE_cong [fundef_cong]:
  "m = m' \<Longrightarrow> (\<And>x. m' = Inr x \<Longrightarrow> f x = f' x) \<Longrightarrow> bindE m f = bindE m' f'"
  by (cases m') (simp_all add: bindE_def)

text \<open>C's integer division truncates towards zero.\<close>

definition cdiv :: "int \<Rightarrow> int \<Rightarrow> int" where
  "cdiv a b = sgn a * sgn b * (\<bar>a\<bar> div \<bar>b\<bar>)"

subsection \<open>Dead cards\<close>

function RemoveDeadCards_loop :: "nat \<Rightarrow> CardSet \<Rightarrow> CardSet" where
  "RemoveDeadCards_loop i f =
     (if i < numCards f then
        (if hasAttr (cards f ! i) ATTR_DEAD then RemoveDeadCards_loop i (RemoveCardFromSet f i)
         else RemoveDeadCards_loop (Suc i) f)
      else f)"
  by pat_completeness auto
termination
  by (relation "measure (\<lambda>(i, f). 2 * numCards f - i)") (auto simp: RemoveCardFromSet_def)

declare RemoveDeadCards_loop.simps [simp del]

definition RemoveDeadCards :: "State \<Rightarrow> State" where
  "RemoveDeadCards state = state\<lparr>field := RemoveDeadCards_loop 0 (field state)\<rparr>"

subsection \<open>Buffs of a class\<close>

definition isHpBuff :: "int \<Rightarrow> bool" where
  "isHpBuff buff \<longleftrightarrow>
     buff = ATTR_TUNDRA_HP_BUFF \<or> buff = ATTR_FOREST_HP_BUFF \<or>
     buff = ATTR_MTN_HP_BUFF \<or> buff = ATTR_SWAMP_HP_BUFF"

definition isAtkBuff :: "int \<Rightarrow> bool" where
  "isAtkBuff buff \<longleftrightarrow>
     buff = ATTR_TUNDRA_ATK_BUFF \<or> buff = ATTR_FOREST_ATK_BUFF \<or>
     buff = ATTR_MTN_ATK_BUFF \<or> buff = ATTR_SWAMP_ATK_BUFF"

text \<open>The \<open>switch\<close> of \<open>RemoveBuffFromField\<close>, for one card \<open>c2\<close> that has the buff.\<close>

definition RemoveBuffFromField_card :: "Card \<Rightarrow> int \<Rightarrow> int \<Rightarrow> Card" where
  "RemoveBuffFromField_card c2 buff lvl =
     (if isHpBuff buff then
        (let c3 = RemoveAttr c2 buff lvl;
             c4 = c3\<lparr>maxHp := maxHp c3 - lvl\<rparr>
         in if hp c4 > maxHp c4 then c4\<lparr>hp := maxHp c4\<rparr> else c4)
      else if isAtkBuff buff then
        (let c3 = RemoveAttr c2 buff lvl;
             c4 = c3\<lparr>atk := atk c3 - lvl, curBaseAtk := curBaseAtk c3 - lvl\<rparr>;
             c5 = (if atk c4 < 0 then c4\<lparr>atk := 0\<rparr> else c4)
         in if curBaseAtk c5 < 0 then c5\<lparr>curBaseAtk := 0\<rparr> else c5)
      else RemoveAttr c2 buff lvl)"

function RemoveBuffFromField_loop :: "nat \<Rightarrow> nat \<Rightarrow> int \<Rightarrow> int \<Rightarrow> CardSet \<Rightarrow> CardSet" where
  "RemoveBuffFromField_loop i c buff lvl f =
     (if i < numCards f then
        (if c = i then RemoveBuffFromField_loop (Suc i) c buff lvl f
         else if hasAttr (cards f ! i) buff then
           RemoveBuffFromField_loop (Suc i) c buff lvl
             (f\<lparr>cards := (cards f)[i := RemoveBuffFromField_card (cards f ! i) buff lvl]\<rparr>)
         else RemoveBuffFromField_loop (Suc i) c buff lvl f)
      else f)"
  by pat_completeness auto
termination
  by (relation "measure (\<lambda>(i, c, buff, lvl, f). numCards f - i)") auto

declare RemoveBuffFromField_loop.simps [simp del]

definition RemoveBuffFromField :: "State \<Rightarrow> nat \<Rightarrow> int \<Rightarrow> int \<Rightarrow> State" where
  "RemoveBuffFromField state c buff lvl =
     state\<lparr>field := RemoveBuffFromField_loop 0 c buff lvl (field state)\<rparr>"

text \<open>\<open>AddBuffToCard\<close>; the card \<open>src\<close> of the source is only printed.\<close>

definition AddBuffToCard :: "Card \<Rightarrow> int \<Rightarrow> int \<Rightarrow> error + Card" where
  "AddBuffToCard target buff lvl =
     (let a = \<lparr>type = buff, level = lvl\<rparr>
      in if isHpBuff buff then
           AddAttr (target\<lparr>hp := hp target + lvl, maxHp := maxHp target + lvl\<rparr>) a
         else if isAtkBuff buff then
           AddAttr (target\<lparr>atk := atk target + lvl, curBaseAtk := curBaseAtk target + lvl\<rparr>) a
         else AddAttr target a)"

function AddBuffToField_loop :: "nat \<Rightarrow> nat \<Rightarrow> int \<Rightarrow> int \<Rightarrow> int \<Rightarrow> CardSet \<Rightarrow> error + CardSet" where
  "AddBuffToField_loop i c cls buff lvl f =
     (if i < numCards f then
        (if c = i then AddBuffToField_loop (Suc i) c cls buff lvl f
         else if cls = ATTR_NONE \<or> hasAttr (cards f ! i) cls then
           bindE (AddBuffToCard (cards f ! i) buff lvl)
             (\<lambda>c2. AddBuffToField_loop (Suc i) c cls buff lvl (f\<lparr>cards := (cards f)[i := c2]\<rparr>))
         else AddBuffToField_loop (Suc i) c cls buff lvl f)
      else Inr f)"
  by pat_completeness auto
termination
  by (relation "measure (\<lambda>(i, c, cls, buff, lvl, f). numCards f - i)") auto

declare AddBuffToField_loop.simps [simp del]

definition AddBuffToField :: "State \<Rightarrow> nat \<Rightarrow> int \<Rightarrow> int \<Rightarrow> int \<Rightarrow> error + State" where
  "AddBuffToField state c cls buff lvl =
     bindE (AddBuffToField_loop 0 c cls buff lvl (field state))
       (\<lambda>f. Inr (state\<lparr>field := f\<rparr>))"

subsection \<open>States for the examples of class buffs\<close>

text \<open>Two Forest cards on the field; in \<open>drainedState\<close> the second has attack 0 and a
  current base attack of -50.\<close>

definition forester :: Card where
  "forester =
     \<lparr>name = ''Forester'', cost = 10, timing = 2, baseAtk = 100, baseHp = 500,
      baseAttr = [\<lparr>type = ATTR_FOREST, level = 0\<rparr>, \<lparr>type = ATTR_FOREST_ATK, level = 10\<rparr>]
                 @ replicate 38 \<lparr>type = ATTR_NONE, level = 0\<rparr>,
      curTiming = 0, atk = 100, curBaseAtk = 100, hp = 500, maxHp = 500,
      attr = [\<lparr>type = ATTR_FOREST, level = 0\<rparr>, \<lparr>type = ATTR_FOREST_ATK, level = 10\<rparr>]\<rparr>"

definition forestState :: State where
  "forestState =
     exState\<lparr>field := \<lparr>numCards = 2, cards = [forester, forester] @ replicate 18 zeroCard\<rparr>\<rparr>"

definition drainedState :: State where
  "drainedState =
     exState\<lparr>field := \<lparr>numCards = 2,
       cards = [forester, forester\<lparr>atk := 0, curBaseAtk := - 50\<rparr>] @ replicate 18 zeroCard\<rparr>\<rparr>"

section \<open>Moving cards between the sets\<close>

text \<open>\<open>AddCardToSetRandomly\<close>; its one call passes the deck. The random position is
  drawn before the capacity is checked, as in the source.\<close>

function shiftRight :: "nat \<Rightarrow> nat \<Rightarrow> 'a list \<Rightarrow> 'a list" where
  "shiftRight i r xs = (if i > r then shiftRight (i - 1) r (xs[i := xs ! (i - 1)]) else xs)"
  by pat_completeness auto
termination
  by (relation "measure (\<lambda>(i, r, xs). i)") auto

declare shiftRight.simps [simp del]

definition AddCardToSetRandomly :: "State \<Rightarrow> Card \<Rightarrow> error + State" where
  "AddCardToSetRandomly state c =
     (let (r, s1) = Rnd state (numCards (deck state) + 1);
          d = deck s1
      in if numCards d \<ge> MAX_CARDS_IN_SET then Inl TooManyCards
         else Inr (s1\<lparr>deck := d\<lparr>cards := (shiftRight (numCards d) r (cards d))[r := c],
                                 numCards := numCards d + 1\<rparr>\<rparr>))"

subsection \<open>Healing\<close>

definition SimPrayer :: "State \<Rightarrow> int \<Rightarrow> State" where
  "SimPrayer state heal =
     (if playerHp state > 0 \<and> playerHp state < playerMaxHp state then
        state\<lparr>playerHp := playerHp state + min heal (playerMaxHp state - playerHp state)\<rparr>
      else state)"

definition HealOneCard :: "Card \<Rightarrow> int \<Rightarrow> Card" where
  "HealOneCard c heal =
     (if hasAttr c ATTR_LACERATE_BUFF \<or> hasAttr c ATTR_IMMUNITY then c
      else if hp c > 0 \<and> hp c < maxHp c then c\<lparr>hp := hp c + min heal (maxHp c - hp c)\<rparr>
      else c)"

function SimRegenerate_loop :: "nat \<Rightarrow> int \<Rightarrow> CardSet \<Rightarrow> CardSet" where
  "SimRegenerate_loop i heal f =
     (if i < numCards f then
        SimRegenerate_loop (Suc i) heal (f\<lparr>cards := (cards f)[i := HealOneCard (cards f ! i) heal]\<rparr>)
      else f)"
  by pat_completeness auto
termination
  by (relation "measure (\<lambda>(i, heal, f). numCards f - i)") auto

declare SimRegenerate_loop.simps [simp del]

definition SimRegenerate :: "State \<Rightarrow> int \<Rightarrow> State" where
  "SimRegenerate state heal = state\<lparr>field := SimRegenerate_loop 0 heal (field state)\<rparr>"

subsection \<open>Reincarnation\<close>

function SimReincarnate_loop :: "nat \<Rightarrow> int \<Rightarrow> State \<Rightarrow> error + State" where
  "SimReincarnate_loop i lvl state =
     (if int i < lvl then
        (if numCards (grave state) = 0 then Inr state
         else (let c2 = cards (grave state) ! 0;
                   g = RemoveCardFromSet (grave state) 0
               in bindE (AddCardToSet (deck state) c2)
                    (\<lambda>d. SimReincarnate_loop (Suc i) lvl (state\<lparr>grave := g, deck := d\<rparr>))))
      else Inr state)"
  by pat_completeness auto
termination
  by (relation "measure (\<lambda>(i, lvl, state). nat (lvl - int i))") auto

declare SimReincarnate_loop.simps [simp del]

definition SimReincarnate :: "State \<Rightarrow> int \<Rightarrow> error + State" where
  "SimReincarnate state lvl = SimReincarnate_loop 0 lvl state"

subsection \<open>Picking one card at random\<close>

text \<open>
  \<open>PickAliveCardFromSet\<close> and \<open>PickReanimatableCard\<close> are the same two loops over
  different tests: count the cards that pass the test, then return the index of the
  \<open>r\<close>-th of them. The result \<open>-1\<close> of the source is \<open>None\<close>.
\<close>

function countEligible :: "(Card \<Rightarrow> bool) \<Rightarrow> nat \<Rightarrow> CardSet \<Rightarrow> nat \<Rightarrow> nat" where
  "countEligible p i cs cnt =
     (if i < numCards cs then
        countEligible p (Suc i) cs (if p (cards cs ! i) then Suc cnt else cnt)
      else cnt)"
  by pat_completeness auto
termination
  by (relation "measure (\<lambda>(p, i, cs, cnt). numCards cs - i)") auto

declare countEligible.simps [simp del]

function findEligible :: "(Card \<Rightarrow> bool) \<Rightarrow> nat \<Rightarrow> CardSet \<Rightarrow> nat \<Rightarrow> nat option" where
  "findEligible p i cs r =
     (if i < numCards cs then
        (if \<not> p (cards cs ! i) then findEligible p (Suc i) cs r
         else if r = 0 then Some i
         else findEligible p (Suc i) cs (r - 1))
      else None)"
  by pat_completeness auto
termination
  by (relation "measure (\<lambda>(p, i, cs, r). numCards cs - i)") auto

declare findEligible.simps [simp del]

definition pickEligible :: "(Card \<Rightarrow> bool) \<Rightarrow> State \<Rightarrow> CardSet \<Rightarrow> nat option \<times> State" where
  "pickEligible p state cs =
     (if numCards cs = 0 then (None, state)
      else (let cnt = countEligible p 0 cs 0
            in if cnt = 0 then (None, state)
               else (let (r, s1) = Rnd state cnt in (findEligible p 0 cs r, s1))))"

definition PickAliveCardFromSet :: "State \<Rightarrow> CardSet \<Rightarrow> nat option \<times> State" where
  "PickAliveCardFromSet state cs = pickEligible (\<lambda>c. hp c > 0) state cs"

definition reanimatable :: "Card \<Rightarrow> bool" where
  "reanimatable c \<longleftrightarrow>
     \<not> (hasAttr c ATTR_REANIMATE \<or> hasAttr c ATTR_D_REANIMATE \<or> hasAttr c ATTR_IMMUNITY)"

definition PickReanimatableCard :: "State \<Rightarrow> nat option \<times> State" where
  "PickReanimatableCard state = pickEligible reanimatable state (grave state)"

subsection \<open>Damage reduction and laceration\<close>

fun ReducePhysDmg_loop :: "Attr list \<Rightarrow> int \<Rightarrow> int" where
  "ReducePhysDmg_loop [] dmg = dmg"
| "ReducePhysDmg_loop (a # as) dmg =
     ReducePhysDmg_loop as
       (if type a = ATTR_PARRY \<or> type a = ATTR_STONEWALL then
          (if dmg - level a < 0 then 0 else dmg - level a)
        else if type a = ATTR_ICE_SHIELD \<or> type a = ATTR_ARCTIC_FREEZE then
          (if dmg > level a then level a else dmg)
        else dmg)"

definition ReducePhysDmg :: "Card \<Rightarrow> int \<Rightarrow> int" where
  "ReducePhysDmg c dmg = ReducePhysDmg_loop (attr c) dmg"

definition SimDemonLacerate :: "Card \<Rightarrow> error + Card" where
  "SimDemonLacerate c =
     (if \<not> hasAttr c ATTR_LACERATE_BUFF then AddAttr c \<lparr>type = ATTR_LACERATE_BUFF, level = 0\<rparr>
      else Inr c)"

subsection \<open>Buffs from a card that enters the field\<close>

text \<open>The \<open>switch\<close> of \<open>HandleBuffsFromCardPlayed\<close> for one attribute of the card.\<close>

definition HandleBuffsFromCardPlayed_attr :: "State \<Rightarrow> nat \<Rightarrow> Attr \<Rightarrow> error + State" where
  "HandleBuffsFromCardPlayed_attr state c a =
     (if type a = ATTR_TUNDRA_HP then
        AddBuffToField state c ATTR_TUNDRA ATTR_TUNDRA_HP_BUFF (level a)
      else if type a = ATTR_FOREST_HP then
        AddBuffToField state c ATTR_FOREST ATTR_FOREST_HP_BUFF (level a)
      else if type a = ATTR_MTN_HP then
        AddBuffToField state c ATTR_MTN ATTR_MTN_HP_BUFF (level a)
      else if type a = ATTR_SWAMP_HP then
        AddBuffToField state c ATTR_SWAMP ATTR_SWAMP_HP_BUFF (level a)
      else if type a = ATTR_TUNDRA_ATK then
        AddBuffToField state c ATTR_TUNDRA ATTR_TUNDRA_ATK_BUFF (level a)
      else if type a = ATTR_FOREST_ATK then
        AddBuffToField state c ATTR_FOREST ATTR_FOREST_ATK_BUFF (level a)
      else if type a = ATTR_MTN_ATK then
        AddBuffToField state c ATTR_MTN ATTR_MTN_ATK_BUFF (level a)
      else if type a = ATTR_SWAMP_ATK then
        AddBuffToField state c ATTR_SWAMP ATTR_SWAMP_ATK_BUFF (level a)
      else Inr state)"

text \<open>The loop reads the attributes of the card \<open>c\<close> anew in every round;
  \<open>AddBuffToField\<close> leaves the card \<open>c\<close> itself alone, which bounds the loop.\<close>

lemma AddBuffToField_loop_source:
  "AddBuffToField_loop i c cls buff lvl f = Inr f' \<Longrightarrow> cards f' ! c = cards f ! c"
proof (induction i c cls buff lvl f rule: AddBuffToField_loop.induct)
  case (1 i c cls buff lvl f)
  show ?case
  proof (cases "i < numCards f")
    case False
    with "1.prems" show ?thesis by (subst (asm) AddBuffToField_loop.simps) simp
  next
    case True
    show ?thesis
    proof (cases "c = i")
      case ci: True
      have "AddBuffToField_loop (Suc i) c cls buff lvl f = Inr f'"
        using "1.prems" True ci by (subst (asm) AddBuffToField_loop.simps) simp
      then show ?thesis by (rule "1.IH"(1) [OF True ci])
    next
      case nci: False
      show ?thesis
      proof (cases "cls = ATTR_NONE \<or> hasAttr (cards f ! i) cls")
        case aff: True
        from "1.prems" True nci aff obtain c2 where
          c2: "AddBuffToCard (cards f ! i) buff lvl = Inr c2" and
          rec: "AddBuffToField_loop (Suc i) c cls buff lvl (f\<lparr>cards := (cards f)[i := c2]\<rparr>) = Inr f'"
          by (subst (asm) AddBuffToField_loop.simps) (auto simp: bindE_def split: sum.splits)
        have "cards f' ! c = cards (f\<lparr>cards := (cards f)[i := c2]\<rparr>) ! c"
          using rec by (rule "1.IH"(2) [OF True nci aff c2])
        also have "\<dots> = cards f ! c" using nci by simp
        finally show ?thesis .
      next
        case naff: False
        have "AddBuffToField_loop (Suc i) c cls buff lvl f = Inr f'"
          using "1.prems" True nci naff by (subst (asm) AddBuffToField_loop.simps) simp
        then show ?thesis by (rule "1.IH"(3) [OF True nci naff])
      qed
    qed
  qed
qed

lemma HandleBuffsFromCardPlayed_attr_source:
  "HandleBuffsFromCardPlayed_attr state c a = Inr s1 \<Longrightarrow> fieldCard s1 c = fieldCard state c"
  by (auto simp: HandleBuffsFromCardPlayed_attr_def AddBuffToField_def bindE_def fieldCard_def
      split: if_splits sum.splits dest: AddBuffToField_loop_source)

function HandleBuffsFromCardPlayed_loop :: "nat \<Rightarrow> nat \<Rightarrow> State \<Rightarrow> error + State" where
  "HandleBuffsFromCardPlayed_loop i c state =
     (if i < numAttr (fieldCard state c) then
        bindE (HandleBuffsFromCardPlayed_attr state c (attr (fieldCard state c) ! i))
          (\<lambda>s1. HandleBuffsFromCardPlayed_loop (Suc i) c s1)
      else Inr state)"
  by pat_completeness auto
termination
  by (relation "measure (\<lambda>(i, c, state). numAttr (fieldCard state c) - i)")
     (auto dest: HandleBuffsFromCardPlayed_attr_source)

declare HandleBuffsFromCardPlayed_loop.simps [simp del]

definition HandleBuffsFromCardPlayed :: "State \<Rightarrow> nat \<Rightarrow> error + State" where
  "HandleBuffsFromCardPlayed state c = HandleBuffsFromCardPlayed_loop 0 c state"

section \<open>Death, reanimation and entering the field\<close>

text \<open>
  \<open>RemoveCard\<close> calls \<open>SimReanimate\<close> (Desperation: Reanimate), which calls
  \<open>CardPlayedToField\<close>, which calls \<open>RemoveCard\<close> (Sacrifice). The three functions are
  defined together, with a fuel that every call and every round of the loop of
  \<open>RemoveCard\<close> uses up; without fuel the result is \<open>OutOfFuel\<close>. Their parts that do not
  call back are defined first.
\<close>

subsection \<open>The parts of \<open>RemoveCard\<close>\<close>

text \<open>Mark the card dead.\<close>

definition RemoveCard_mark :: "State \<Rightarrow> nat \<Rightarrow> error + State" where
  "RemoveCard_mark state c =
     bindE (AddAttr ((fieldCard state c)\<lparr>hp := 0\<rparr>) DeadAttr)
       (\<lambda>c'. Inr (setFieldCard state c c'))"

text \<open>The \<open>switch\<close> over one attribute of the dying card, but for the case
  \<open>ATTR_D_REANIMATE\<close>, which is in the recursive definition below.\<close>

definition RemoveCard_attr :: "State \<Rightarrow> nat \<Rightarrow> Attr \<Rightarrow> bool \<Rightarrow> error + State" where
  "RemoveCard_attr state c a sendToGraveyard =
     (if type a = ATTR_TUNDRA_HP then
        Inr (RemoveBuffFromField state c ATTR_TUNDRA_HP_BUFF (level a))
      else if type a = ATTR_FOREST_HP then
        Inr (RemoveBuffFromField state c ATTR_FOREST_HP_BUFF (level a))
      else if type a = ATTR_MTN_HP then
        Inr (RemoveBuffFromField state c ATTR_MTN_HP_BUFF (level a))
      else if type a = ATTR_SWAMP_HP then
        Inr (RemoveBuffFromField state c ATTR_SWAMP_HP_BUFF (level a))
      else if type a = ATTR_TUNDRA_ATK then
        Inr (RemoveBuffFromField state c ATTR_TUNDRA_ATK_BUFF (level a))
      else if type a = ATTR_FOREST_ATK then
        Inr (RemoveBuffFromField state c ATTR_FOREST_ATK_BUFF (level a))
      else if type a = ATTR_MTN_ATK then
        Inr (RemoveBuffFromField state c ATTR_MTN_ATK_BUFF (level a))
      else if type a = ATTR_SWAMP_ATK then
        Inr (RemoveBuffFromField state c ATTR_SWAMP_ATK_BUFF (level a))
      else if type a = ATTR_D_PRAYER then
        (if sendToGraveyard then Inr (SimPrayer state (level a)) else Inr state)
      else if type a = ATTR_D_REINCARNATE then
        (if sendToGraveyard then SimReincarnate state (level a) else Inr state)
      else Inr state)"

text \<open>Where the dead card goes. A resurrection (Dirt, Resurrection) draws a number below
  100 and, when it is below the level, sends the card to the hand, or to the deck when the
  hand is full.\<close>

datatype destination = ToGrave | ToHand | ToDeck

definition resurrect :: "State \<Rightarrow> int \<Rightarrow> destination \<Rightarrow> destination \<times> State" where
  "resurrect state lvl dst =
     (let (r, s1) = Rnd state 100
      in if int r < lvl then
           (if numCards (hand s1) \<ge> MAX_CARDS_IN_HAND then (ToDeck, s1) else (ToHand, s1))
         else (dst, s1))"

definition addToDestination :: "State \<Rightarrow> destination \<Rightarrow> Card \<Rightarrow> error + State" where
  "addToDestination state dst c =
     (case dst of
        ToGrave \<Rightarrow> bindE (AddCardToSet (grave state) c) (\<lambda>cs. Inr (state\<lparr>grave := cs\<rparr>))
      | ToHand \<Rightarrow> bindE (AddCardToSet (hand state) c) (\<lambda>cs. Inr (state\<lparr>hand := cs\<rparr>))
      | ToDeck \<Rightarrow> bindE (AddCardToSet (deck state) c) (\<lambda>cs. Inr (state\<lparr>deck := cs\<rparr>)))"

text \<open>Move the card to the graveyard, the hand or the deck, and leave the dead card in
  its slot of the field.\<close>

definition RemoveCard_move :: "State \<Rightarrow> nat \<Rightarrow> bool \<Rightarrow> error + State" where
  "RemoveCard_move state c sendToGraveyard =
     (let copy = InitCard (fieldCard state c)
      in bindE
           (if sendToGraveyard then
              (let (d1, s1) = (case HasAttr (fieldCard state c) ATTR_DIRT of
                                 Some lvl \<Rightarrow> resurrect state lvl ToGrave
                               | None \<Rightarrow> (ToGrave, state));
                   (d2, s2) = (case HasAttr (fieldCard s1 c) ATTR_RESURRECTION of
                                 Some lvl \<Rightarrow> resurrect s1 lvl d1
                               | None \<Rightarrow> (d1, s1))
               in addToDestination s2 d2 copy)
            else AddCardToSetRandomly state copy)
           (\<lambda>s3. Inr (setFieldCard s3 c DeadCard)))"

subsection \<open>The parts of \<open>SimReanimate\<close> and \<open>CardPlayedToField\<close>\<close>

text \<open>Move the card at index \<open>r\<close> of the graveyard to the end of the field, with
  reanimation sickness.\<close>

definition SimReanimate_place :: "State \<Rightarrow> nat \<Rightarrow> error + State" where
  "SimReanimate_place state r =
     (let c2 = (cards (grave state) ! r)\<lparr>curTiming := 0\<rparr>;
          g = RemoveCardFromSet (grave state) r
      in bindE (AddCardToSet (field state) c2) (\<lambda>f.
         bindE (AddAttr (cards f ! (numCards f - 1)) \<lparr>type = ATTR_REANIM_SICKNESS, level = 0\<rparr>) (\<lambda>c.
         Inr (state\<lparr>grave := g, field := f\<lparr>cards := (cards f)[numCards f - 1 := c]\<rparr>\<rparr>))))"

text \<open>Obstinacy, Backstab and the QuickStrike abilities of the card that entered.\<close>

definition CardPlayedToField_quick :: "State \<Rightarrow> nat \<Rightarrow> error + State" where
  "CardPlayedToField_quick state c =
     (let s1 = (case HasAttr (fieldCard state c) ATTR_OBSTINACY of
                  Some lvl \<Rightarrow> state\<lparr>playerHp := playerHp state - lvl\<rparr>
                | None \<Rightarrow> state)
      in bindE
           (case HasAttr (fieldCard s1 c) ATTR_BACKSTAB of
              Some lvl \<Rightarrow>
                bindE (AddAttr ((fieldCard s1 c)\<lparr>atk := atk (fieldCard s1 c) + lvl\<rparr>)
                         \<lparr>type = ATTR_BACKSTAB_BUFF, level = lvl\<rparr>)
                  (\<lambda>c'. Inr (setFieldCard s1 c c'))
            | None \<Rightarrow> Inr s1)
           (\<lambda>s2.
              let s3 = (case HasAttr (fieldCard s2 c) ATTR_QS_PRAYER of
                          Some lvl \<Rightarrow> SimPrayer s2 lvl | None \<Rightarrow> s2);
                  s4 = (case HasAttr (fieldCard s3 c) ATTR_QS_REGENERATE of
                          Some lvl \<Rightarrow> SimRegenerate s3 lvl | None \<Rightarrow> s3)
              in case HasAttr (fieldCard s4 c) ATTR_QS_REINCARNATE of
                   Some lvl \<Rightarrow> SimReincarnate s4 lvl | None \<Rightarrow> Inr s4))"

text \<open>Sacrifice, up to the call of \<open>RemoveCard\<close>: the gains of the card \<open>c\<close> and the hit
  points of the sacrificed card \<open>c2\<close> set to 0.\<close>

definition CardPlayedToField_sacrifice :: "State \<Rightarrow> nat \<Rightarrow> nat \<Rightarrow> int \<Rightarrow> State" where
  "CardPlayedToField_sacrifice state c c2 lvl =
     (let cc = fieldCard state c;
          atkIncrease = cdiv (atk cc * lvl) 100;
          hpIncrease = cdiv (hp cc * lvl) 100;
          s1 = setFieldCard state c
                 (cc\<lparr>atk := atk cc + atkIncrease, curBaseAtk := curBaseAtk cc + atkIncrease,
                     hp := hp cc + hpIncrease, maxHp := maxHp cc + hpIncrease\<rparr>)
      in setFieldCard s1 c2 ((fieldCard s1 c2)\<lparr>hp := 0\<rparr>))"

text \<open>The new card receives the buffs of the cards of its class on the field.\<close>

definition receiveBuff :: "State \<Rightarrow> nat \<Rightarrow> nat \<Rightarrow> int \<Rightarrow> int \<Rightarrow> error + State" where
  "receiveBuff state c c2 ability buff =
     (case HasAttr (fieldCard state c2) ability of
        Some lvl \<Rightarrow> bindE (AddBuffToCard (fieldCard state c) buff lvl)
                      (\<lambda>c'. Inr (setFieldCard state c c'))
      | None \<Rightarrow> Inr state)"

lemma receiveBuff_numCards:
  "receiveBuff state c c2 ability buff = Inr s1 \<Longrightarrow> numCards (field s1) = numCards (field state)"
  by (auto simp: receiveBuff_def bindE_def setFieldCard_def split: option.splits sum.splits)

function CardPlayedToField_receive_loop ::
  "nat \<Rightarrow> nat \<Rightarrow> int \<Rightarrow> int \<Rightarrow> int \<Rightarrow> int \<Rightarrow> State \<Rightarrow> error + State" where
  "CardPlayedToField_receive_loop i c attrHp attrHpBuff attrAtk attrAtkBuff state =
     (if i < numCards (field state) then
        (if c = i then
           CardPlayedToField_receive_loop (Suc i) c attrHp attrHpBuff attrAtk attrAtkBuff state
         else
           bindE (receiveBuff state c i attrHp attrHpBuff) (\<lambda>s1.
           bindE (receiveBuff s1 c i attrAtk attrAtkBuff) (\<lambda>s2.
           CardPlayedToField_receive_loop (Suc i) c attrHp attrHpBuff attrAtk attrAtkBuff s2)))
      else Inr state)"
  by pat_completeness auto
termination
  by (relation "measure (\<lambda>(i, c, a, b, d, e, state). numCards (field state) - i)")
     (auto dest!: receiveBuff_numCards)

declare CardPlayedToField_receive_loop.simps [simp del]

definition CardPlayedToField_receive :: "State \<Rightarrow> nat \<Rightarrow> error + State" where
  "CardPlayedToField_receive state c =
     (let cc = fieldCard state c
      in if hasAttr cc ATTR_TUNDRA then
           CardPlayedToField_receive_loop 0 c
             ATTR_TUNDRA_HP ATTR_TUNDRA_HP_BUFF ATTR_TUNDRA_ATK ATTR_TUNDRA_ATK_BUFF state
         else if hasAttr cc ATTR_FOREST then
           CardPlayedToField_receive_loop 0 c
             ATTR_FOREST_HP ATTR_FOREST_HP_BUFF ATTR_FOREST_ATK ATTR_FOREST_ATK_BUFF state
         else if hasAttr cc ATTR_MTN then
           CardPlayedToField_receive_loop 0 c
             ATTR_MTN_HP ATTR_MTN_HP_BUFF ATTR_MTN_ATK ATTR_MTN_ATK_BUFF state
         else if hasAttr cc ATTR_SWAMP then
           CardPlayedToField_receive_loop 0 c
             ATTR_SWAMP_HP ATTR_SWAMP_HP_BUFF ATTR_SWAMP_ATK ATTR_SWAMP_ATK_BUFF state
         else Inr state)"

subsection \<open>The three functions\<close>

fun RemoveCard :: "nat \<Rightarrow> State \<Rightarrow> nat \<Rightarrow> bool \<Rightarrow> error + State"
  and RemoveCard_loop :: "nat \<Rightarrow> nat \<Rightarrow> State \<Rightarrow> nat \<Rightarrow> bool \<Rightarrow> error + State"
  and SimReanimate :: "nat \<Rightarrow> State \<Rightarrow> error + State"
  and CardPlayedToField :: "nat \<Rightarrow> State \<Rightarrow> nat \<Rightarrow> error + State"
where
  "RemoveCard 0 state c sendToGraveyard = Inl OutOfFuel"
| "RemoveCard (Suc fuel) state c sendToGraveyard =
     bindE (RemoveCard_mark state c) (\<lambda>s1.
     bindE (RemoveCard_loop fuel 0 s1 c sendToGraveyard) (\<lambda>s2.
     RemoveCard_move s2 c sendToGraveyard))"
| "RemoveCard_loop 0 i state c sendToGraveyard = Inl OutOfFuel"
| "RemoveCard_loop (Suc fuel) i state c sendToGraveyard =
     (if i < numAttr (fieldCard state c) then
        bindE
          (let a = attr (fieldCard state c) ! i
           in if type a = ATTR_D_REANIMATE then
                (if sendToGraveyard then SimReanimate fuel state else Inr state)
              else RemoveCard_attr state c a sendToGraveyard)
          (\<lambda>s1. RemoveCard_loop fuel (Suc i) s1 c sendToGraveyard)
      else Inr state)"
| "SimReanimate 0 state = Inl OutOfFuel"
| "SimReanimate (Suc fuel) state =
     (case PickReanimatableCard state of
        (None, s1) \<Rightarrow> Inr s1
      | (Some r, s1) \<Rightarrow>
          bindE (SimReanimate_place s1 r) (\<lambda>s2.
          CardPlayedToField fuel s2 (numCards (field s2) - 1)))"
| "CardPlayedToField 0 state c = Inl OutOfFuel"
| "CardPlayedToField (Suc fuel) state c =
     bindE (CardPlayedToField_quick state c) (\<lambda>s1.
     bindE
       (case HasAttr (fieldCard s1 c) ATTR_SACRIFICE of
          Some lvl \<Rightarrow>
            if numCards (field s1) > 1 then
              (let (r, s2) = Rnd s1 (numCards (field s1) - 1)
               in if hasAttr (fieldCard s2 r) ATTR_IMMUNITY then Inr s2
                  else bindE (RemoveCard fuel (CardPlayedToField_sacrifice s2 c r lvl) r True)
                         (\<lambda>s3. Inr (RemoveDeadCards s3)))
            else Inr s1
        | None \<Rightarrow> Inr s1)
       (\<lambda>s4.
     bindE (CardPlayedToField_receive s4 c) (\<lambda>s5.
     HandleBuffsFromCardPlayed s5 c)))"

section \<open>Damage\<close>

text \<open>
  In a loop whose bound is the current \<open>numCards\<close> of the field and whose body can call
  \<open>RemoveCard\<close> (which may add cards to the field or compact it), every round uses up
  fuel, as in the three functions above.
\<close>

subsection \<open>Damage to the player\<close>

text \<open>The loop over the cards with Guard returns the damage left over.\<close>

fun DamagePlayer_loop :: "nat \<Rightarrow> nat \<Rightarrow> int \<Rightarrow> State \<Rightarrow> error + (int \<times> State)" where
  "DamagePlayer_loop 0 i dmg state = Inl OutOfFuel"
| "DamagePlayer_loop (Suc fuel) i dmg state =
     (if i < numCards (field state) then
        (let c = fieldCard state i
         in if hasAttr c ATTR_GUARD then
              (let cardDmg = min dmg (hp c)
               in if cardDmg > 0 then
                    (let s1 = setFieldCard state i (c\<lparr>hp := hp c - cardDmg\<rparr>)
                     in bindE (if hp (fieldCard s1 i) \<le> 0 then RemoveCard fuel s1 i True
                               else Inr s1)
                          (\<lambda>s2. DamagePlayer_loop fuel (Suc i) (dmg - cardDmg) s2))
                  else DamagePlayer_loop fuel (Suc i) dmg state)
            else DamagePlayer_loop fuel (Suc i) dmg state)
      else Inr (dmg, state))"

definition DamagePlayer :: "nat \<Rightarrow> State \<Rightarrow> int \<Rightarrow> error + State" where
  "DamagePlayer fuel state dmg =
     bindE (DamagePlayer_loop fuel 0 dmg state)
       (\<lambda>(dmg', s1). Inr (s1\<lparr>playerHp := playerHp s1 - dmg'\<rparr>))"

subsection \<open>Damage to a card\<close>

text \<open>A dodge (Nimble Soul, Dodge): a number below 100 is drawn only when the card has
  the attribute.\<close>

definition dodges :: "State \<Rightarrow> nat \<Rightarrow> int \<Rightarrow> bool \<times> State" where
  "dodges state c attrType =
     (case HasAttr (fieldCard state c) attrType of
        Some lvl \<Rightarrow> (let (r, s1) = Rnd state 100 in (int r < lvl, s1))
      | None \<Rightarrow> (False, state))"

text \<open>The abilities triggered by damage. The loop body changes the attack of the card,
  the demon and the damage done, never the attributes of the card, so the loop runs over
  the attributes the card has when the loop starts.\<close>

definition damageDemon :: "State \<Rightarrow> int \<Rightarrow> State" where
  "damageDemon state lvl =
     state\<lparr>dmgDone := dmgDone state + lvl, demon := (demon state)\<lparr>hp := hp (demon state) - lvl\<rparr>\<rparr>"

fun DamageCard_triggers :: "Attr list \<Rightarrow> nat \<Rightarrow> State \<Rightarrow> State" where
  "DamageCard_triggers [] c state = state"
| "DamageCard_triggers (a # as) c state =
     DamageCard_triggers as c
       (let cc = fieldCard state c; lvl = level a
        in if type a = ATTR_CRAZE \<or> type a = ATTR_TSUNAMI then
             setFieldCard state c (cc\<lparr>atk := atk cc + lvl, curBaseAtk := curBaseAtk cc + lvl\<rparr>)
           else if type a = ATTR_COUNTERATTACK \<or> type a = ATTR_RETALIATION \<or>
                   type a = ATTR_THUNDER_SHIELD \<or> type a = ATTR_FIRE_FORGE then
             damageDemon state lvl
           else if type a = ATTR_WICKED_LEECH then
             (let d = demon state;
                  atkLoss = cdiv (curBaseAtk d * lvl) 100;
                  s1 = state\<lparr>demon := d\<lparr>curBaseAtk := curBaseAtk d - atkLoss,
                                          atk := atk d - atkLoss\<rparr>\<rparr>
              in setFieldCard s1 c
                   (cc\<lparr>atk := atk cc + atkLoss, curBaseAtk := curBaseAtk cc + atkLoss\<rparr>))
           else state)"

text \<open>\<open>DamageCard\<close> returns the damage done to the card and the state.\<close>

definition DamageCard :: "nat \<Rightarrow> State \<Rightarrow> nat \<Rightarrow> int \<Rightarrow> error + (int \<times> State)" where
  "DamageCard fuel state c dmg =
     (let (dodged, s1) = dodges state c ATTR_NIMBLE_SOUL
      in if dodged then Inr (0, s1)
         else
           (let (dodged', s2) = dodges s1 c ATTR_DODGE
            in if dodged' then Inr (0, s2)
               else
                 (let dmg' = ReducePhysDmg (fieldCard s2 c) dmg
                  in if dmg' > 0 then
                       (let cc = fieldCard s2 c;
                            hp' = hp cc - dmg';
                            s3 = setFieldCard s2 c (cc\<lparr>hp := (if hp' \<le> 0 then 0 else hp')\<rparr>);
                            s4 = DamageCard_triggers (attr (fieldCard s3 c)) c s3
                        in bindE (if hp (fieldCard s4 c) = 0 then RemoveCard fuel s4 c True
                                  else Inr s4) (\<lambda>s5.
                           bindE (if hp (fieldCard s5 c) > 0 \<and> hasAttr (demon s5) ATTR_LACERATE
                                  then bindE (SimDemonLacerate (fieldCard s5 c))
                                         (\<lambda>c'. Inr (setFieldCard s5 c c'))
                                  else Inr s5) (\<lambda>s6.
                           Inr (dmg', s6))))
                     else Inr (0, s2))))"

subsection \<open>The demon's attack\<close>

fun SimDemonAttack_chain :: "nat \<Rightarrow> nat \<Rightarrow> string \<Rightarrow> int \<Rightarrow> State \<Rightarrow> error + State" where
  "SimDemonAttack_chain 0 i cardName newDmg state = Inl OutOfFuel"
| "SimDemonAttack_chain (Suc fuel) i cardName newDmg state =
     (if i < numCards (field state) then
        (let c2 = fieldCard state i
         in if \<not> hasAttr c2 ATTR_DEAD \<and> hp c2 > 0 \<and> cardName = name c2 then
              bindE (DamageCard fuel state i newDmg)
                (\<lambda>(d, s1). SimDemonAttack_chain fuel (Suc i) cardName newDmg s1)
            else SimDemonAttack_chain fuel (Suc i) cardName newDmg state)
      else Inr state)"

definition SimDemonAttack :: "nat \<Rightarrow> State \<Rightarrow> int \<Rightarrow> error + State" where
  "SimDemonAttack fuel state dmg =
     (if numCards (field state) > 0 \<and> \<not> hasAttr (fieldCard state 0) ATTR_DEAD then
        (let cardName = name (fieldCard state 0)
         in bindE (DamageCard fuel state 0 dmg) (\<lambda>(newDmg, s1).
              case HasAttr (demon s1) ATTR_CHAIN_ATTACK of
                Some lvl \<Rightarrow>
                  if newDmg > 0 then
                    SimDemonAttack_chain fuel 1 cardName (cdiv (newDmg * lvl) 100) s1
                  else Inr s1
              | None \<Rightarrow> Inr s1))
      else DamagePlayer fuel state dmg)"

section \<open>The demon's round\<close>

subsection \<open>The card with the lowest hit points\<close>

text \<open>
  \<open>FindLowestHpCard\<close>: the first loop finds the lowest value, the number of cards
  sharing it and the first card that has it. The second loop of the source never moves
  its card pointer: it still points to the last card of the set, and that card's value is
  compared again in every round. The result is the index of a card, or \<open>None\<close> for
  \<open>NULL\<close>.
\<close>

definition lowValue :: "bool \<Rightarrow> Card \<Rightarrow> int" where
  "lowValue mostDamaged c = (if mostDamaged then maxHp c - hp c else hp c)"

function FindLowestHpCard_scan ::
  "nat \<Rightarrow> CardSet \<Rightarrow> bool \<Rightarrow> int \<Rightarrow> int \<Rightarrow> nat option \<Rightarrow> int \<times> int \<times> nat option" where
  "FindLowestHpCard_scan i cs mostDamaged lowest numLowest lowC =
     (if i < numCards cs then
        (let c = cards cs ! i;
             v = lowValue mostDamaged c;
             isLowest = (hp c > 0 \<and>
                         (lowest = -1 \<or> (if mostDamaged then v > lowest else v < lowest)))
         in if isLowest then FindLowestHpCard_scan (Suc i) cs mostDamaged v 1 (Some i)
            else if v = lowest then
              FindLowestHpCard_scan (Suc i) cs mostDamaged lowest (numLowest + 1) lowC
            else FindLowestHpCard_scan (Suc i) cs mostDamaged lowest numLowest lowC)
      else (lowest, numLowest, lowC))"
  by pat_completeness auto
termination
  by (relation "measure (\<lambda>(i, cs, m, l, n, c). numCards cs - i)") auto

declare FindLowestHpCard_scan.simps [simp del]

function FindLowestHpCard_pick ::
  "nat \<Rightarrow> CardSet \<Rightarrow> int \<Rightarrow> int \<Rightarrow> int \<Rightarrow> nat option \<Rightarrow> nat option" where
  "FindLowestHpCard_pick i cs v lowest r lowC =
     (if i < numCards cs then
        (if v = lowest then
           (if r = 0 then Some (numCards cs - 1)
            else FindLowestHpCard_pick (Suc i) cs v lowest (r - 1) lowC)
         else FindLowestHpCard_pick (Suc i) cs v lowest r lowC)
      else lowC)"
  by pat_completeness auto
termination
  by (relation "measure (\<lambda>(i, cs, v, l, r, c). numCards cs - i)") auto

declare FindLowestHpCard_pick.simps [simp del]

definition FindLowestHpCard :: "State \<Rightarrow> CardSet \<Rightarrow> bool \<Rightarrow> nat option \<times> State" where
  "FindLowestHpCard state cs mostDamaged =
     (let (lowest, numLowest, lowC) = FindLowestHpCard_scan 0 cs mostDamaged (-1) 0 None
      in if numLowest = 0 then (None, state)
         else if numLowest = 1 then (lowC, state)
         else
           (let (r, s1) = (if \<not> mostDamaged then (numLowest - 1, state)
                           else (let (r', s') = Rnd state (nat numLowest) in (int r', s')));
                v = lowValue mostDamaged (cards cs ! (numCards cs - 1))
            in (FindLowestHpCard_pick 0 cs v lowest r lowC, s1)))"

subsection \<open>Trap\<close>

function SimDemonTrap_loop :: "nat \<Rightarrow> int \<Rightarrow> nat list \<Rightarrow> State \<Rightarrow> error + State" where
  "SimDemonTrap_loop i numTrapped trapped state =
     (if int i < numTrapped then
        (let (r, s1) = Rnd state 100;
             c = trapped ! i
         in if hasAttr (fieldCard s1 c) ATTR_IMMUNITY then
              SimDemonTrap_loop (Suc i) numTrapped trapped s1
            else if hasAttr (fieldCard s1 c) ATTR_EVASION then
              SimDemonTrap_loop (Suc i) numTrapped trapped s1
            else if r < 65 then
              bindE (AddAttr (fieldCard s1 c) \<lparr>type = ATTR_TRAP_BUFF, level = 0\<rparr>)
                (\<lambda>c'. SimDemonTrap_loop (Suc i) numTrapped trapped (setFieldCard s1 c c'))
            else SimDemonTrap_loop (Suc i) numTrapped trapped s1)
      else Inr state)"
  by pat_completeness auto
termination
  by (relation "measure (\<lambda>(i, n, t, s). nat (n - int i))") auto

declare SimDemonTrap_loop.simps [simp del]

definition SimDemonTrap :: "State \<Rightarrow> int \<Rightarrow> error + State" where
  "SimDemonTrap state numToTrap =
     (let (numTrapped, trapped, s1) = PickNCards state (field state) numToTrap
      in if numTrapped = 0 then Inr s1
         else SimDemonTrap_loop 0 numTrapped trapped s1)"

subsection \<open>The abilities of the demon\<close>

text \<open>Fire God: the loop only adds attributes, so the number of field cards is fixed.\<close>

function SimDemon_fireGod :: "nat \<Rightarrow> Attr \<Rightarrow> CardSet \<Rightarrow> error + CardSet" where
  "SimDemon_fireGod j a f =
     (if j < numCards f then
        (let c = cards f ! j
         in if hp c \<le> 0 then SimDemon_fireGod (Suc j) a f
            else if hasAttr c ATTR_IMMUNITY then SimDemon_fireGod (Suc j) a f
            else if \<not> hasAttr c ATTR_FIRE_GOD then
              bindE (AddAttr c a)
                (\<lambda>c'. SimDemon_fireGod (Suc j) a (f\<lparr>cards := (cards f)[j := c']\<rparr>))
            else SimDemon_fireGod (Suc j) a f)
      else Inr f)"
  by pat_completeness auto
termination
  by (relation "measure (\<lambda>(j, a, f). numCards f - j)") auto

declare SimDemon_fireGod.simps [simp del]

text \<open>Toxic Clouds: a living card with Immunity ends the loop (\<open>break\<close>); a card with
  no hit points is passed over (\<open>continue\<close>).\<close>

fun SimDemon_toxicClouds :: "nat \<Rightarrow> nat \<Rightarrow> Attr \<Rightarrow> State \<Rightarrow> error + State" where
  "SimDemon_toxicClouds 0 j a state = Inl OutOfFuel"
| "SimDemon_toxicClouds (Suc fuel) j a state =
     (if j < numCards (field state) then
        (let c = fieldCard state j
         in if hp c \<le> 0 then SimDemon_toxicClouds fuel (Suc j) a state
            else if hasAttr c ATTR_IMMUNITY then Inr state
            else
              (let dmg = min (level a) (hp c);
                   s1 = setFieldCard state j (c\<lparr>hp := hp c - dmg\<rparr>)
               in bindE
                    (if hp (fieldCard s1 j) \<le> 0 then RemoveCard fuel s1 j True
                     else if \<not> hasAttr (fieldCard s1 j) ATTR_TOXIC_CLOUDS then
                       bindE (AddAttr (fieldCard s1 j) a) (\<lambda>c'. Inr (setFieldCard s1 j c'))
                     else Inr s1)
                    (\<lambda>s2. SimDemon_toxicClouds fuel (Suc j) a s2)))
      else Inr state)"

text \<open>Take hit points from a card picked by the demon and remove the card when it has
  none left (Snipe, Mana Corrupt).\<close>

definition hitPickedCard :: "nat \<Rightarrow> State \<Rightarrow> nat \<Rightarrow> int \<Rightarrow> error + State" where
  "hitPickedCard fuel state c dmg =
     (let cc = fieldCard state c;
          dmg' = min dmg (hp cc);
          s1 = setFieldCard state c (cc\<lparr>hp := hp cc - dmg'\<rparr>)
      in if hp (fieldCard s1 c) = 0 then RemoveCard fuel s1 c True else Inr s1)"

text \<open>The \<open>switch\<close> over one attribute of the demon.\<close>

definition SimDemon_attr :: "nat \<Rightarrow> State \<Rightarrow> Attr \<Rightarrow> error + State" where
  "SimDemon_attr fuel state a =
     (if type a = ATTR_CURSE then DamagePlayer fuel state (level a)
      else if type a = ATTR_DAMNATION then
        (let dmg = level a * int (numCards (field state))
         in if dmg > 0 then DamagePlayer fuel state dmg else Inr state)
      else if type a = ATTR_EXILE then
        (if numCards (field state) > 0 \<and> hp (fieldCard state 0) > 0 \<and>
            \<not> hasAttr (fieldCard state 0) ATTR_RESISTANCE \<and>
            \<not> hasAttr (fieldCard state 0) ATTR_IMMUNITY
         then RemoveCard fuel state 0 False else Inr state)
      else if type a = ATTR_SNIPE then
        (case FindLowestHpCard state (field state) False of
           (None, s1) \<Rightarrow> Inr s1
         | (Some c, s1) \<Rightarrow> hitPickedCard fuel s1 c (level a))
      else if type a = ATTR_MANA_CORRUPT then
        (case PickAliveCardFromSet state (field state) of
           (None, s1) \<Rightarrow> Inr s1
         | (Some r, s1) \<Rightarrow>
             hitPickedCard fuel s1 r
               (if hasAttr (fieldCard s1 r) ATTR_REFLECTION \<or> hasAttr (fieldCard s1 r) ATTR_IMMUNITY
                then level a * 3 else level a))
      else if type a = ATTR_DESTROY then
        (case PickAliveCardFromSet state (field state) of
           (None, s1) \<Rightarrow> Inr s1
         | (Some r, s1) \<Rightarrow>
             if \<not> hasAttr (fieldCard s1 r) ATTR_RESISTANCE \<and> \<not> hasAttr (fieldCard s1 r) ATTR_IMMUNITY
             then RemoveCard fuel (setFieldCard s1 r ((fieldCard s1 r)\<lparr>hp := 0\<rparr>)) r True
             else Inr s1)
      else if type a = ATTR_FIRE_GOD then
        bindE (SimDemon_fireGod 0 a (field state)) (\<lambda>f. Inr (state\<lparr>field := f\<rparr>))
      else if type a = ATTR_TOXIC_CLOUDS then SimDemon_toxicClouds fuel 0 a state
      else if type a = ATTR_TRAP then SimDemonTrap state (level a)
      else Inr state)"

fun SimDemon_loop :: "nat \<Rightarrow> nat \<Rightarrow> State \<Rightarrow> error + State" where
  "SimDemon_loop 0 i state = Inl OutOfFuel"
| "SimDemon_loop (Suc fuel) i state =
     (if i < numAttr (demon state) then
        (if playerHp state \<le> 0 then Inr state
         else bindE (SimDemon_attr fuel state (attr (demon state) ! i))
                (\<lambda>s1. SimDemon_loop fuel (Suc i) s1))
      else Inr state)"

definition SimDemon :: "nat \<Rightarrow> State \<Rightarrow> error + State" where
  "SimDemon fuel state =
     (if round state < FIRST_DEMON_ROUND then Inr state
      else
        (let s1 = (if round state \<ge> 51 then
                     (let dmg = min (cdiv (round state - 51) 2 * 60 + 80) (playerHp state)
                      in state\<lparr>playerHp := playerHp state - dmg\<rparr>)
                   else state)
         in bindE (SimDemon_loop fuel 0 s1) (\<lambda>s2.
            bindE (if playerHp s2 > 0 then
                     (let lvl = (case HasAttr (demon s2) ATTR_HOT_CHASE of
                                   Some l \<Rightarrow> l * int (numCards (grave s2)) | None \<Rightarrow> 0)
                      in SimDemonAttack fuel s2 (if lvl > 0 then atk (demon s2) + lvl
                                                 else atk (demon s2)))
                   else Inr s2) (\<lambda>s3.
            Inr (RemoveDeadCards s3)))))"

section \<open>The player's round\<close>

subsection \<open>Abilities of the player's cards\<close>

function SimAdvancedStrike_scan :: "nat \<Rightarrow> CardSet \<Rightarrow> int \<Rightarrow> nat option \<Rightarrow> nat option" where
  "SimAdvancedStrike_scan i h highTiming highIndex =
     (if i < numCards h then
        (if curTiming (cards h ! i) > highTiming then
           SimAdvancedStrike_scan (Suc i) h (curTiming (cards h ! i)) (Some i)
         else SimAdvancedStrike_scan (Suc i) h highTiming highIndex)
      else highIndex)"
  by pat_completeness auto
termination
  by (relation "measure (\<lambda>(i, h, t, x). numCards h - i)") auto

declare SimAdvancedStrike_scan.simps [simp del]

definition SimAdvancedStrike :: "State \<Rightarrow> State" where
  "SimAdvancedStrike state =
     (let h = hand state
      in case SimAdvancedStrike_scan 0 h (-1) None of
           None \<Rightarrow> state
         | Some highIndex \<Rightarrow>
             (let c = cards h ! highIndex
              in if curTiming c > 0 then
                   state\<lparr>hand := h\<lparr>cards := (cards h)[highIndex := c\<lparr>curTiming := curTiming c - 1\<rparr>]\<rparr>\<rparr>
                 else state))"

definition SimHealing :: "State \<Rightarrow> int \<Rightarrow> State" where
  "SimHealing state heal =
     (case FindLowestHpCard state (field state) True of
        (None, s1) \<Rightarrow> s1
      | (Some c, s1) \<Rightarrow> setFieldCard s1 c (HealOneCard (fieldCard s1 c) heal))"

subsection \<open>The attack of the leftmost card\<close>

text \<open>The three loops of \<open>SimPlayerAttack\<close> over the attributes of the card. None of
  them changes the attributes, so each runs over the attribute list as it is when the
  loop starts. The first two change only local variables (and the seeds).\<close>

fun SimPlayerAttack_revival :: "Attr list \<Rightarrow> int \<Rightarrow> int \<Rightarrow> int \<times> int" where
  "SimPlayerAttack_revival [] dmg baseAtk' = (dmg, baseAtk')"
| "SimPlayerAttack_revival (a # as) dmg baseAtk' =
     (if type a = ATTR_REVIVAL then SimPlayerAttack_revival as (dmg + level a) (baseAtk' + level a)
      else SimPlayerAttack_revival as dmg baseAtk')"

text \<open>Concentrate and Frost Bite: half the increase when \<open>avgConcentrate\<close> is set,
  otherwise the whole increase with probability one half.\<close>

definition concentrate :: "Config \<Rightarrow> int \<Rightarrow> int \<Rightarrow> int \<Rightarrow> State \<Rightarrow> int \<times> State" where
  "concentrate cfg baseAtk' lvl dmg state =
     (if avgConcentrate cfg then (dmg + cdiv (baseAtk' * lvl) 200, state)
      else (let (r, s1) = Rnd state 100
            in if r < 50 then (dmg + cdiv (baseAtk' * lvl) 100, s1) else (dmg, s1)))"

fun SimPlayerAttack_pre :: "Config \<Rightarrow> Attr list \<Rightarrow> int \<Rightarrow> int \<Rightarrow> State \<Rightarrow> int \<times> State" where
  "SimPlayerAttack_pre cfg [] baseAtk' dmg state = (dmg, state)"
| "SimPlayerAttack_pre cfg (a # as) baseAtk' dmg state =
     (let (dmg', s1) =
        (if type a = ATTR_VENDETTA then
           (let increase = int (numCards (grave state)) * level a
            in (if increase > 0 then dmg + increase else dmg, state))
         else if type a = ATTR_WARPATH \<or> type a = ATTR_LORE then
           (dmg + cdiv (baseAtk' * level a) 100, state)
         else if type a = ATTR_CONCENTRATE \<or> type a = ATTR_FROST_BITE then
           concentrate cfg baseAtk' (level a) dmg state
         else (dmg, state))
      in SimPlayerAttack_pre cfg as baseAtk' dmg' s1)"

fun SimPlayerAttack_post :: "Attr list \<Rightarrow> int \<Rightarrow> Card \<Rightarrow> Card" where
  "SimPlayerAttack_post [] dmg c = c"
| "SimPlayerAttack_post (a # as) dmg c =
     SimPlayerAttack_post as dmg
       (if type a = ATTR_BLOODSUCKER \<or> type a = ATTR_RED_VALLEY then
          (let increase = min (cdiv (dmg * level a) 100) (maxHp c - hp c)
           in if hp c > 0 \<and> increase > 0 then c\<lparr>hp := hp c + increase\<rparr> else c)
        else if type a = ATTR_BLOODTHIRSTY then
          c\<lparr>atk := atk c + level a, curBaseAtk := curBaseAtk c + level a\<rparr>
        else c)"

text \<open>The demon's Counterattack or Retaliation. In \<open>Rnd(state, 100) < attributeLevel\<close>
  the level is converted to \<open>unsigned int\<close>.\<close>

definition asUnsigned :: "int \<Rightarrow> nat" where
  "asUnsigned x = unat (word_of_int x :: 32 word)"

definition SimPlayerAttack_counter :: "nat \<Rightarrow> State \<Rightarrow> nat \<Rightarrow> int \<Rightarrow> error + State" where
  "SimPlayerAttack_counter fuel state i lvl =
     (if hp (fieldCard state i) \<le> 0 then Inr state
      else
        (let (dodged, s1) =
               (case HasAttr (fieldCard state i) ATTR_DEXTERITY of
                  Some attributeLevel \<Rightarrow>
                    (let (r, s') = Rnd state 100 in (r < asUnsigned attributeLevel, s'))
                | None \<Rightarrow> (False, state))
         in if dodged then Inr s1
            else
              (let c2 = fieldCard s1 i;
                   dmg = min lvl (hp c2);
                   s2 = setFieldCard s1 i (c2\<lparr>hp := hp c2 - dmg\<rparr>)
               in if hp (fieldCard s2 i) \<le> 0 then RemoveCard fuel s2 i True else Inr s2)))"

text \<open>The loop over the first \<open>numCardsToCounter\<close> cards (2, 1 or 0 of them), unrolled;
  it ends when the field has no card at the index.\<close>

definition SimPlayerAttack_counters :: "nat \<Rightarrow> State \<Rightarrow> error + State" where
  "SimPlayerAttack_counters fuel state =
     (let (numCardsToCounter, lvl) =
            (case HasAttr (demon state) ATTR_RETALIATION of
               Some l \<Rightarrow> (2 :: nat, l)
             | None \<Rightarrow> (case HasAttr (demon state) ATTR_COUNTERATTACK of
                          Some l \<Rightarrow> (1, l) | None \<Rightarrow> (0, 0)))
      in if numCardsToCounter = 0 \<or> numCards (field state) \<le> 0 then Inr state
         else bindE (SimPlayerAttack_counter fuel state 0 lvl) (\<lambda>s1.
                if numCardsToCounter = 1 \<or> numCards (field s1) \<le> 1 then Inr s1
                else SimPlayerAttack_counter fuel s1 1 lvl))"

definition SimPlayerAttack :: "nat \<Rightarrow> Config \<Rightarrow> State \<Rightarrow> error + State" where
  "SimPlayerAttack fuel cfg state =
     (if numCards (field state) = 0 then Inr state
      else if round state < FIRST_PLAYER_ROUND then Inr state
      else
        (let c = fieldCard state 0;
             (dmg1, baseAtk') = SimPlayerAttack_revival (attr c) (atk c) (curBaseAtk c);
             (dmg2, s1) = SimPlayerAttack_pre cfg (attr c) baseAtk' dmg1 state;
             dmg = ReducePhysDmg (demon s1) dmg2;
             s2 = damageDemon s1 dmg
         in if dmg \<le> 0 then Inr s2
            else
              (let c' = fieldCard s2 0;
                   s3 = setFieldCard s2 0 (SimPlayerAttack_post (attr c') dmg c')
               in bindE (SimPlayerAttack_counters fuel s3) (\<lambda>s4.
                    if hp (fieldCard s4 0) \<le> 0 then Inr s4
                    else
                      (case HasAttr (demon s4) ATTR_WICKED_LEECH of
                         None \<Rightarrow> Inr s4
                       | Some lvl \<Rightarrow>
                           (let cc = fieldCard s4 0;
                                atkLoss = cdiv (curBaseAtk cc * lvl) 100;
                                cc1 = cc\<lparr>atk := atk cc - atkLoss,
                                         curBaseAtk := curBaseAtk cc - atkLoss\<rparr>;
                                cc2 = (if atk cc1 < 0 then cc1\<lparr>atk := 0\<rparr> else cc1);
                                s5 = setFieldCard s4 0 cc2;
                                d = demon s5
                            in Inr (s5\<lparr>demon := d\<lparr>curBaseAtk := curBaseAtk d + atkLoss,
                                                     atk := atk d + atkLoss\<rparr>\<rparr>)))))))"

subsection \<open>One card's turn\<close>

text \<open>The \<open>switch\<close> of the first loop of \<open>SimPlayerCard\<close> for one attribute.\<close>

definition SimPlayerCard_ability :: "nat \<Rightarrow> State \<Rightarrow> nat \<Rightarrow> Attr \<Rightarrow> error + State" where
  "SimPlayerCard_ability fuel state c a =
     (let lvl = level a
      in if type a = ATTR_ADVANCED_STRIKE then Inr (SimAdvancedStrike state)
         else if type a = ATTR_REINCARNATE then SimReincarnate state lvl
         else if type a = ATTR_REANIMATE then SimReanimate fuel state
         else if type a = ATTR_REGENERATE then Inr (SimRegenerate state lvl)
         else if type a = ATTR_HEALING then Inr (SimHealing state lvl)
         else if type a = ATTR_PRAYER then Inr (SimPrayer state lvl)
         else if type a = ATTR_SNIPE \<or> type a = ATTR_MANA_CORRUPT \<or> type a = ATTR_FLYING_STONE then
           (if round state \<ge> FIRST_PLAYER_ROUND then
              Inr (damageDemon state (if type a = ATTR_MANA_CORRUPT then lvl * 3 else lvl))
            else Inr state)
         else if type a = ATTR_MANIA then
           (let cc = fieldCard state c;
                cc1 = cc\<lparr>hp := hp cc - lvl, atk := atk cc + lvl, curBaseAtk := curBaseAtk cc + lvl\<rparr>;
                cc2 = (if hp cc1 < 0 then cc1\<lparr>hp := 0\<rparr> else cc1);
                s1 = setFieldCard state c cc2
            in if hp (fieldCard s1 c) = 0 then RemoveCard fuel s1 c True else Inr s1)
         else Inr state)"

fun SimPlayerCard_abilities :: "nat \<Rightarrow> nat \<Rightarrow> nat \<Rightarrow> State \<Rightarrow> error + State" where
  "SimPlayerCard_abilities 0 i c state = Inl OutOfFuel"
| "SimPlayerCard_abilities (Suc fuel) i c state =
     (if i < numAttr (fieldCard state c) then
        bindE (SimPlayerCard_ability fuel state c (attr (fieldCard state c) ! i))
          (\<lambda>s1. SimPlayerCard_abilities fuel (Suc i) c s1)
      else Inr state)"

text \<open>The statuses that do damage after the attack (Fire God, Toxic Clouds).\<close>

definition SimPlayerCard_status :: "nat \<Rightarrow> State \<Rightarrow> nat \<Rightarrow> Attr \<Rightarrow> error + State" where
  "SimPlayerCard_status fuel state c a =
     (if type a = ATTR_FIRE_GOD \<or> type a = ATTR_TOXIC_CLOUDS then
        (let cc = fieldCard state c;
             lvl = min (level a) (hp cc)
         in if lvl \<ge> 0 then
              (let cc1 = cc\<lparr>hp := hp cc - lvl\<rparr>;
                   cc2 = (if type a = ATTR_FIRE_GOD then cc1 else RemoveAttr cc1 (type a) (-1));
                   s1 = setFieldCard state c cc2
               in if hp (fieldCard s1 c) \<le> 0 then RemoveCard fuel s1 c True else Inr s1)
            else Inr state)
      else Inr state)"

fun SimPlayerCard_statuses :: "nat \<Rightarrow> nat \<Rightarrow> nat \<Rightarrow> State \<Rightarrow> error + State" where
  "SimPlayerCard_statuses 0 i c state = Inl OutOfFuel"
| "SimPlayerCard_statuses (Suc fuel) i c state =
     (if i < numAttr (fieldCard state c) then
        bindE (SimPlayerCard_status fuel state c (attr (fieldCard state c) ! i))
          (\<lambda>s1. SimPlayerCard_statuses fuel (Suc i) c s1)
      else Inr state)"

text \<open>The healing attributes after the attack; the loop changes only the hit points of
  the card.\<close>

fun SimPlayerCard_heal :: "Attr list \<Rightarrow> bool \<Rightarrow> Card \<Rightarrow> Card" where
  "SimPlayerCard_heal [] trapped c = c"
| "SimPlayerCard_heal (a # as) trapped c =
     SimPlayerCard_heal as trapped
       (if type a = ATTR_REJUVENATE \<or> type a = ATTR_BLOOD_STONE then
          (if trapped then c
           else if hasAttr c ATTR_LACERATE_BUFF then c
           else (let lvl = min (level a) (maxHp c - hp c)
                 in if lvl > 0 then c\<lparr>hp := hp c + lvl\<rparr> else c))
        else c)"

text \<open>From the label \<open>SkipAttack\<close> to the end of \<open>SimPlayerCard\<close>.\<close>

definition SimPlayerCard_after :: "nat \<Rightarrow> State \<Rightarrow> nat \<Rightarrow> bool \<Rightarrow> error + State" where
  "SimPlayerCard_after fuel state c trapped =
     bindE (SimPlayerCard_statuses fuel 0 c state) (\<lambda>s1.
       if hp (fieldCard s1 c) \<le> 0 then Inr s1
       else Inr (setFieldCard s1 c
                   (SimPlayerCard_heal (attr (fieldCard s1 c)) trapped (fieldCard s1 c))))"

definition SimPlayerCard :: "nat \<Rightarrow> Config \<Rightarrow> State \<Rightarrow> nat \<Rightarrow> error + State" where
  "SimPlayerCard fuel cfg state cardNum =
     (let c = cardNum
      in if hp (fieldCard state c) \<le> 0 then Inr state
         else if hasAttr (fieldCard state c) ATTR_REANIM_SICKNESS then
           Inr (setFieldCard state c (RemoveAttr (fieldCard state c) ATTR_REANIM_SICKNESS (-1)))
         else if hasAttr (fieldCard state c) ATTR_TRAP_BUFF then
           SimPlayerCard_after fuel
             (setFieldCard state c (RemoveAttr (fieldCard state c) ATTR_TRAP_BUFF (-1))) c True
         else
           bindE (SimPlayerCard_abilities fuel 0 c state) (\<lambda>s1.
           bindE (if cardNum = 0 \<and> hp (fieldCard s1 c) > 0 then SimPlayerAttack fuel cfg s1
                  else Inr s1) (\<lambda>s2.
           if hp (fieldCard s2 c) \<le> 0 then Inr s2
           else SimPlayerCard_after fuel s2 c False)))"

subsection \<open>Runes\<close>

definition countCardsWithAttr :: "CardSet \<Rightarrow> int \<Rightarrow> nat" where
  "countCardsWithAttr cs attrType = countEligible (\<lambda>c. hasAttr c attrType) 0 cs 0"

function addRuneBuffToField_loop :: "nat \<Rightarrow> Attr \<Rightarrow> CardSet \<Rightarrow> error + CardSet" where
  "addRuneBuffToField_loop i a f =
     (if i < numCards f then
        bindE (AddAttr (cards f ! i) a)
          (\<lambda>c. addRuneBuffToField_loop (Suc i) a (f\<lparr>cards := (cards f)[i := c]\<rparr>))
      else Inr f)"
  by pat_completeness auto
termination
  by (relation "measure (\<lambda>(i, a, f). numCards f - i)") auto

declare addRuneBuffToField_loop.simps [simp del]

definition addRuneBuffToField :: "State \<Rightarrow> Attr \<Rightarrow> error + State" where
  "addRuneBuffToField state a =
     bindE (addRuneBuffToField_loop 0 a (field state)) (\<lambda>f. Inr (state\<lparr>field := f\<rparr>))"

function removeRuneBuffFromField_loop :: "nat \<Rightarrow> int \<Rightarrow> CardSet \<Rightarrow> CardSet" where
  "removeRuneBuffFromField_loop i attrType f =
     (if i < numCards f then
        removeRuneBuffFromField_loop (Suc i) attrType
          (f\<lparr>cards := (cards f)[i := RemoveAttr (cards f ! i) attrType (-1)]\<rparr>)
      else f)"
  by pat_completeness auto
termination
  by (relation "measure (\<lambda>(i, a, f). numCards f - i)") auto

declare removeRuneBuffFromField_loop.simps [simp del]

definition removeRuneBuffFromField :: "State \<Rightarrow> int \<Rightarrow> State" where
  "removeRuneBuffFromField state attrType =
     state\<lparr>field := removeRuneBuffFromField_loop 0 attrType (field state)\<rparr>"

text \<open>The end of Spring Breeze: the loop over the field in the deactivation of the
  rune.\<close>

function springBreezeEnd_loop :: "nat \<Rightarrow> int \<Rightarrow> CardSet \<Rightarrow> CardSet" where
  "springBreezeEnd_loop j lvl f =
     (if j < numCards f then
        (let c = cards f ! j
         in if \<not> hasAttr c ATTR_SPRING_BREEZE then springBreezeEnd_loop (Suc j) lvl f
            else
              (let c1 = RemoveAttr c ATTR_SPRING_BREEZE (-1);
                   c2 = c1\<lparr>maxHp := maxHp c1 - lvl\<rparr>;
                   c3 = (if hp c2 > maxHp c2 then c2\<lparr>hp := maxHp c2\<rparr> else c2)
               in springBreezeEnd_loop (Suc j) lvl (f\<lparr>cards := (cards f)[j := c3]\<rparr>)))
      else f)"
  by pat_completeness auto
termination
  by (relation "measure (\<lambda>(j, lvl, f). numCards f - j)") auto

declare springBreezeEnd_loop.simps [simp del]

text \<open>The runes whose buff is an attribute on every field card, removed again in the
  next round.\<close>

definition isBuffRune :: "int \<Rightarrow> bool" where
  "isBuffRune t \<longleftrightarrow>
     t = ATTR_ARCTIC_FREEZE \<or> t = ATTR_BLOOD_STONE \<or> t = ATTR_FROST_BITE \<or>
     t = ATTR_RED_VALLEY \<or> t = ATTR_LORE \<or> t = ATTR_REVIVAL \<or> t = ATTR_FIRE_FORGE \<or>
     t = ATTR_STONEWALL \<or> t = ATTR_THUNDER_SHIELD \<or> t = ATTR_NIMBLE_SOUL \<or>
     t = ATTR_DIRT \<or> t = ATTR_FLYING_STONE \<or> t = ATTR_TSUNAMI"

definition setRune :: "State \<Rightarrow> nat \<Rightarrow> Rune \<Rightarrow> State" where
  "setRune state i rune = state\<lparr>runes := (runes state)[i := rune]\<rparr>"

text \<open>Deactivation of the rune at index \<open>i\<close> (one round of the first loop of
  \<open>HandleRunes\<close>).\<close>

definition HandleRunes_deactivate :: "State \<Rightarrow> nat \<Rightarrow> State" where
  "HandleRunes_deactivate state i =
     (let rune = runes state ! i
      in if usedThisRound rune = 0 then state
         else
           (let s1 = setRune state i (rune\<lparr>usedThisRound := 0\<rparr>);
                t = type (runeAttr rune)
            in if isBuffRune t then removeRuneBuffFromField s1 t
               else if t = ATTR_SPRING_BREEZE then
                 s1\<lparr>field := springBreezeEnd_loop 0 (level (runeAttr rune)) (field s1)\<rparr>
               else s1))"

text \<open>A rune that is activated uses one charge; a buff rune is marked as used this
  round.\<close>

definition useCharge :: "State \<Rightarrow> nat \<Rightarrow> bool \<Rightarrow> State" where
  "useCharge state i mark =
     (let rune = runes state ! i;
          rune1 = rune\<lparr>chargesUsed := chargesUsed rune + 1\<rparr>
      in setRune state i (if mark then rune1\<lparr>usedThisRound := 1\<rparr> else rune1))"

definition activateBuffRune :: "State \<Rightarrow> nat \<Rightarrow> error + State" where
  "activateBuffRune state i =
     bindE (addRuneBuffToField state (runeAttr (runes state ! i)))
       (\<lambda>s1. Inr (useCharge s1 i True))"

text \<open>Clear Spring needs a field card that is damaged and not at 0 hit points.\<close>

function hasDamaged_loop :: "nat \<Rightarrow> CardSet \<Rightarrow> bool" where
  "hasDamaged_loop j f =
     (if j < numCards f then
        (if hp (cards f ! j) \<noteq> 0 \<and> hp (cards f ! j) < maxHp (cards f ! j) then True
         else hasDamaged_loop (Suc j) f)
      else False)"
  by pat_completeness auto
termination
  by (relation "measure (\<lambda>(j, f). numCards f - j)") auto

declare hasDamaged_loop.simps [simp del]

function springBreezeStart_loop :: "nat \<Rightarrow> int \<Rightarrow> CardSet \<Rightarrow> CardSet" where
  "springBreezeStart_loop j lvl f =
     (if j < numCards f then
        (let c = cards f ! j
         in springBreezeStart_loop (Suc j) lvl
              (f\<lparr>cards := (cards f)[j := c\<lparr>hp := hp c + lvl, maxHp := maxHp c + lvl\<rparr>]\<rparr>))
      else f)"
  by pat_completeness auto
termination
  by (relation "measure (\<lambda>(j, lvl, f). numCards f - j)") auto

declare springBreezeStart_loop.simps [simp del]

text \<open>Activation of the rune at index \<open>i\<close> (one round of the second loop of
  \<open>HandleRunes\<close>).\<close>

definition HandleRunes_activate :: "State \<Rightarrow> nat \<Rightarrow> error + State" where
  "HandleRunes_activate state i =
     (let rune = runes state ! i;
          t = type (runeAttr rune);
          lvl = level (runeAttr rune)
      in if chargesUsed rune \<ge> maxCharges rune then Inr state
         else if t = ATTR_ARCTIC_FREEZE then
           (if countCardsWithAttr (grave state) ATTR_TUNDRA > 2 then activateBuffRune state i
            else Inr state)
         else if t = ATTR_BLOOD_STONE then
           (if countCardsWithAttr (field state) ATTR_MTN > 1 then activateBuffRune state i
            else Inr state)
         else if t = ATTR_CLEAR_SPRING then
           (if countCardsWithAttr (field state) ATTR_TUNDRA > 1 then
              (if \<not> hasDamaged_loop 0 (field state) then Inr state
               else Inr (useCharge (SimRegenerate state lvl) i False))
            else Inr state)
         else if t = ATTR_FROST_BITE then
           (if countCardsWithAttr (grave state) ATTR_TUNDRA > 3 then activateBuffRune state i
            else Inr state)
         else if t = ATTR_RED_VALLEY then
           (if countCardsWithAttr (field state) ATTR_SWAMP > 1 then activateBuffRune state i
            else Inr state)
         else if t = ATTR_LORE then
           (if countCardsWithAttr (grave state) ATTR_MTN > 2 then activateBuffRune state i
            else Inr state)
         else if t = ATTR_LEAF then
           (if round state > 14 then Inr (useCharge (damageDemon state lvl) i False)
            else Inr state)
         else if t = ATTR_REVIVAL then
           (if countCardsWithAttr (grave state) ATTR_FOREST > 1 then activateBuffRune state i
            else Inr state)
         else if t = ATTR_FIRE_FORGE then
           (if countCardsWithAttr (grave state) ATTR_MTN > 1 then activateBuffRune state i
            else Inr state)
         else if t = ATTR_STONEWALL then
           (if countCardsWithAttr (field state) ATTR_SWAMP > 1 then activateBuffRune state i
            else Inr state)
         else if t = ATTR_THUNDER_SHIELD then
           (if countCardsWithAttr (field state) ATTR_FOREST > 1 then activateBuffRune state i
            else Inr state)
         else if t = ATTR_NIMBLE_SOUL then
           (if countCardsWithAttr (grave state) ATTR_FOREST > 2 then activateBuffRune state i
            else Inr state)
         else if t = ATTR_DIRT then
           (if countCardsWithAttr (grave state) ATTR_SWAMP > 1 then activateBuffRune state i
            else Inr state)
         else if t = ATTR_FLYING_STONE then
           (if countCardsWithAttr (grave state) ATTR_SWAMP > 2 then activateBuffRune state i
            else Inr state)
         else if t = ATTR_TSUNAMI then
           (if playerHp state < cdiv (playerMaxHp state) 2 then activateBuffRune state i
            else Inr state)
         else if t = ATTR_SPRING_BREEZE then
           (if countCardsWithAttr (hand state) ATTR_FOREST > 1 \<and> numCards (field state) > 0 then
              bindE (activateBuffRune state i)
                (\<lambda>s1. Inr (s1\<lparr>field := springBreezeStart_loop 0 lvl (field s1)\<rparr>))
            else Inr state)
         else Inr state)"

text \<open>\<open>HandleRunes\<close>: the two loops over the runes. Neither changes \<open>numRunes\<close>, which
  bounds them.\<close>

lemma HandleRunes_deactivate_numRunes:
  "numRunes (HandleRunes_deactivate state i) = numRunes state"
  by (simp add: HandleRunes_deactivate_def setRune_def removeRuneBuffFromField_def Let_def)

lemma activateBuffRune_numRunes:
  "activateBuffRune state i = Inr s1 \<Longrightarrow> numRunes s1 = numRunes state"
  by (auto simp: activateBuffRune_def addRuneBuffToField_def useCharge_def setRune_def
      bindE_def Let_def split: sum.splits)

lemma HandleRunes_activate_numRunes:
  "HandleRunes_activate state i = Inr s1 \<Longrightarrow> numRunes s1 = numRunes state"
  unfolding HandleRunes_activate_def Let_def
  by (auto simp: useCharge_def setRune_def SimRegenerate_def damageDemon_def bindE_def Let_def
      split: if_splits sum.splits dest: activateBuffRune_numRunes)

function HandleRunes_deactivate_loop :: "nat \<Rightarrow> State \<Rightarrow> State" where
  "HandleRunes_deactivate_loop i state =
     (if i < numRunes state then
        HandleRunes_deactivate_loop (Suc i) (HandleRunes_deactivate state i)
      else state)"
  by pat_completeness auto
termination
  by (relation "measure (\<lambda>(i, state). numRunes state - i)")
     (auto simp: HandleRunes_deactivate_numRunes)

declare HandleRunes_deactivate_loop.simps [simp del]

function HandleRunes_activate_loop :: "nat \<Rightarrow> State \<Rightarrow> error + State" where
  "HandleRunes_activate_loop i state =
     (if i < numRunes state then
        bindE (HandleRunes_activate state i) (\<lambda>s1. HandleRunes_activate_loop (Suc i) s1)
      else Inr state)"
  by pat_completeness auto
termination
  by (relation "measure (\<lambda>(i, state). numRunes state - i)")
     (auto dest: HandleRunes_activate_numRunes)

declare HandleRunes_activate_loop.simps [simp del]

definition HandleRunes :: "State \<Rightarrow> error + State" where
  "HandleRunes state = HandleRunes_activate_loop 0 (HandleRunes_deactivate_loop 0 state)"

subsection \<open>The player's round\<close>

fun SimPlayer_cards :: "nat \<Rightarrow> Config \<Rightarrow> nat \<Rightarrow> State \<Rightarrow> error + State" where
  "SimPlayer_cards 0 cfg i state = Inl OutOfFuel"
| "SimPlayer_cards (Suc fuel) cfg i state =
     (if i < numCards (field state) then
        bindE (SimPlayerCard fuel cfg state i) (\<lambda>s1. SimPlayer_cards fuel cfg (Suc i) s1)
      else Inr state)"

function SimPlayer_backstab :: "nat \<Rightarrow> CardSet \<Rightarrow> CardSet" where
  "SimPlayer_backstab i f =
     (if i < numCards f then
        (let c = cards f ! i
         in case HasAttr c ATTR_BACKSTAB_BUFF of
              Some lvl \<Rightarrow>
                (let c1 = RemoveAttr c ATTR_BACKSTAB_BUFF (-1)
                 in SimPlayer_backstab (Suc i) (f\<lparr>cards := (cards f)[i := c1\<lparr>atk := atk c1 - lvl\<rparr>]\<rparr>))
            | None \<Rightarrow> SimPlayer_backstab (Suc i) f)
      else f)"
  by pat_completeness auto
termination
  by (relation "measure (\<lambda>(i, f). numCards f - i)") auto

declare SimPlayer_backstab.simps [simp del]

definition SimPlayer :: "nat \<Rightarrow> Config \<Rightarrow> State \<Rightarrow> error + State" where
  "SimPlayer fuel cfg state =
     bindE (HandleRunes state) (\<lambda>s1.
     bindE (SimPlayer_cards fuel cfg 0 s1) (\<lambda>s2.
     Inr (RemoveDeadCards (s2\<lparr>field := SimPlayer_backstab 0 (field s2)\<rparr>))))"

section \<open>The battle\<close>

function DecreaseTimers_loop :: "nat \<Rightarrow> CardSet \<Rightarrow> CardSet" where
  "DecreaseTimers_loop i h =
     (if i < numCards h then
        (let c = cards h ! i
         in DecreaseTimers_loop (Suc i)
              (if curTiming c > 0 then h\<lparr>cards := (cards h)[i := c\<lparr>curTiming := curTiming c - 1\<rparr>]\<rparr>
               else h))
      else h)"
  by pat_completeness auto
termination
  by (relation "measure (\<lambda>(i, h). numCards h - i)") auto

declare DecreaseTimers_loop.simps [simp del]

definition DecreaseTimers :: "State \<Rightarrow> State" where
  "DecreaseTimers state = state\<lparr>hand := DecreaseTimers_loop 0 (hand state)\<rparr>"

definition PlayCardsFromDeck :: "State \<Rightarrow> error + State" where
  "PlayCardsFromDeck state =
     (let d = deck state; h = hand state
      in if numCards d > 0 \<and> numCards h \<ge> MAX_CARDS_IN_HAND then Inr state
         else if numCards d > 0 then
           bindE (AddCardToSet h (cards d ! (numCards d - 1)))
             (\<lambda>h'. Inr (state\<lparr>hand := h', deck := RemoveCardFromSet d (numCards d - 1)\<rparr>))
         else Inr state)"

text \<open>\<open>PlayCardsFromHand\<close>: a card played leaves the hand, and the loop looks at the same
  index again.\<close>

fun PlayCardsFromHand_loop :: "nat \<Rightarrow> nat \<Rightarrow> State \<Rightarrow> error + State" where
  "PlayCardsFromHand_loop 0 i state = Inl OutOfFuel"
| "PlayCardsFromHand_loop (Suc fuel) i state =
     (if i < numCards (hand state) then
        (let c = cards (hand state) ! i
         in if curTiming c \<le> 0 then
              bindE (AddCardToSet (field state) c) (\<lambda>f.
              bindE (CardPlayedToField fuel
                       (state\<lparr>hand := RemoveCardFromSet (hand state) i, field := f\<rparr>)
                       (numCards f - 1)) (\<lambda>s1.
              PlayCardsFromHand_loop fuel i s1))
            else PlayCardsFromHand_loop fuel (Suc i) state)
      else Inr state)"

definition PlayCardsFromHand :: "nat \<Rightarrow> State \<Rightarrow> error + State" where
  "PlayCardsFromHand fuel state = PlayCardsFromHand_loop fuel 0 state"

text \<open>
  \<open>Simulate\<close>. The loop continues while the player has hit points, the field, the deck
  or the hand holds a card, and the round is at most \<open>maxRounds\<close>. The result is the
  state and the flag \<open>*hitRoundX\<close>.
\<close>

definition continues :: "Config \<Rightarrow> State \<Rightarrow> bool" where
  "continues cfg state \<longleftrightarrow>
     playerHp state > 0 \<and>
     (numCards (field state) > 0 \<or> numCards (deck state) > 0 \<or> numCards (hand state) > 0) \<and>
     round state \<le> maxRounds cfg"

fun Simulate_loop :: "nat \<Rightarrow> Config \<Rightarrow> int \<Rightarrow> State \<Rightarrow> bool \<Rightarrow> error + (State \<times> bool)" where
  "Simulate_loop 0 cfg localRoundX state hitRoundX = Inl OutOfFuel"
| "Simulate_loop (Suc fuel) cfg localRoundX state hitRoundX =
     (if continues cfg state then
        (let hit = (if round state = localRoundX then True else hitRoundX);
             s1 = DecreaseTimers state
         in if round s1 mod 2 = 0 then
              bindE (PlayCardsFromDeck s1) (\<lambda>s2.
              bindE (PlayCardsFromHand fuel s2) (\<lambda>s3.
                if playerHp s3 \<le> 0 then Inr (s3, hit)
                else
                  bindE (SimPlayer fuel cfg s3) (\<lambda>s4.
                  Simulate_loop fuel cfg localRoundX (s4\<lparr>round := round s4 + 1\<rparr>) hit)))
            else
              bindE (SimDemon fuel s1) (\<lambda>s2.
              Simulate_loop fuel cfg localRoundX (s2\<lparr>round := round s2 + 1\<rparr>) hit))
      else Inr (state, hitRoundX))"

definition Simulate :: "nat \<Rightarrow> Config \<Rightarrow> State \<Rightarrow> int \<Rightarrow> bool \<Rightarrow> error + (State \<times> bool)" where
  "Simulate fuel cfg state localRoundX hitRoundX =
     bindE (Simulate_loop fuel cfg localRoundX state hitRoundX)
       (\<lambda>(s1, hit). Inr (s1\<lparr>round := round s1 - 1\<rparr>, hit))"

text \<open>The outcome of a battle that the caller of \<open>Simulate\<close> records: the damage done,
  the round and the flag.\<close>

definition outcome :: "State \<times> bool \<Rightarrow> int \<times> int \<times> bool" where
  "outcome r = (dmgDone (fst r), round (fst r), snd r)"

subsection \<open>States for the examples of the battle loop\<close>

text \<open>A state whose field, deck and hand are empty while the graveyard holds a card.\<close>

definition graveOnly :: State where
  "graveOnly = exState\<lparr>field := zeroSet, grave := \<lparr>numCards = 1, cards = dodger # replicate 19 zeroCard\<rparr>\<rparr>"

definition exConfig :: Config where
  "exConfig = \<lparr>maxRounds = 500, avgConcentrate = False\<rparr>"

section \<open>Examples for Toxic Clouds\<close>

text \<open>What Toxic Clouds of the attribute \<open>a\<close> does to a card that survives it: the level
  is taken from its hit points and the attribute is added unless the card has it. A card
  without hit points is left alone.\<close>

definition toxicHit :: "Attr \<Rightarrow> Card \<Rightarrow> Card" where
  "toxicHit a c =
     (if hp c \<le> 0 then c
      else if hasAttr c ATTR_TOXIC_CLOUDS then c\<lparr>hp := hp c - level a\<rparr>
      else c\<lparr>hp := hp c - level a, attr := attr c @ [a]\<rparr>)"

text \<open>A card with Immunity, and a field with a living card, the placeholder of a dead
  card, the card with Immunity and another living card.\<close>

definition immune :: Card where
  "immune = dodger\<lparr>name := ''Immune'', hp := 300, attr := [\<lparr>type = ATTR_IMMUNITY, level = 0\<rparr>]\<rparr>"

definition cloudState :: State where
  "cloudState =
     exState\<lparr>field := \<lparr>numCards = 4,
       cards = [dodger, DeadCard, immune, dodger] @ replicate 16 zeroCard\<rparr>\<rparr>"

text \<open>A card with Desperation: Reanimate, a card without abilities and a card with
  Sacrifice; in \<open>aliasState\<close> the first stands before the card with Immunity, and the last
  lies in the graveyard. Both seeds are 0.\<close>

definition weak :: Card where
  "weak =
     \<lparr>name = ''Weak'', cost = 10, timing = 2, baseAtk = 100, baseHp = 100,
      baseAttr = \<lparr>type = ATTR_D_REANIMATE, level = 0\<rparr> # replicate 39 \<lparr>type = ATTR_NONE, level = 0\<rparr>,
      curTiming = 0, atk = 100, curBaseAtk = 100, hp = 100, maxHp = 100,
      attr = [\<lparr>type = ATTR_D_REANIMATE, level = 0\<rparr>]\<rparr>"

definition plain :: Card where
  "plain =
     \<lparr>name = ''Plain'', cost = 10, timing = 2, baseAtk = 100, baseHp = 500,
      baseAttr = replicate 40 \<lparr>type = ATTR_NONE, level = 0\<rparr>,
      curTiming = 0, atk = 100, curBaseAtk = 100, hp = 500, maxHp = 500, attr = []\<rparr>"

definition butcher :: Card where
  "butcher =
     \<lparr>name = ''Butcher'', cost = 10, timing = 2, baseAtk = 100, baseHp = 500,
      baseAttr = \<lparr>type = ATTR_SACRIFICE, level = 50\<rparr> # replicate 39 \<lparr>type = ATTR_NONE, level = 0\<rparr>,
      curTiming = 2, atk = 100, curBaseAtk = 100, hp = 500, maxHp = 500,
      attr = [\<lparr>type = ATTR_SACRIFICE, level = 50\<rparr>]\<rparr>"

definition aliasState :: State where
  "aliasState =
     exState\<lparr>field := \<lparr>numCards = 3, cards = [weak, immune, plain] @ replicate 17 zeroCard\<rparr>,
             grave := \<lparr>numCards = 1, cards = butcher # replicate 19 zeroCard\<rparr>,
             seedW := 0, seedZ := 0\<rparr>"

section \<open>Examples for the runes\<close>

text \<open>The rune after one more charge, with its mark for this round; and the relation
  between a rune before and after a call of \<open>HandleRunes\<close>: the same number of charges,
  and either as many used as before or, when one was left, one more.\<close>

definition charged :: "Rune \<Rightarrow> int \<Rightarrow> Rune" where
  "charged rune u = rune\<lparr>chargesUsed := chargesUsed rune + 1, usedThisRound := u\<rparr>"

definition stepped :: "Rune \<Rightarrow> Rune \<Rightarrow> bool" where
  "stepped r r' \<longleftrightarrow>
     maxCharges r' = maxCharges r \<and>
     (chargesUsed r' = chargesUsed r \<or>
      chargesUsed r < maxCharges r \<and> chargesUsed r' = chargesUsed r + 1)"

text \<open>A Leaf rune with two charges, a Tsunami rune without any left, and states holding
  both or only the second, in round 15.\<close>

definition leafRune :: Rune where
  "leafRune = \<lparr>runeName = ''Leaf'', runeAttr = \<lparr>type = ATTR_LEAF, level = 100\<rparr>,
     maxCharges = 2, chargesUsed = 0, usedThisRound = 0\<rparr>"

definition spentRune :: Rune where
  "spentRune = \<lparr>runeName = ''Tsunami'', runeAttr = \<lparr>type = ATTR_TSUNAMI, level = 60\<rparr>,
     maxCharges = 1, chargesUsed = 1, usedThisRound = 0\<rparr>"

definition runeState :: State where
  "runeState = exState\<lparr>round := 15, playerHp := 100, numRunes := 2, runes := [leafRune, spentRune]\<rparr>"

definition spentState :: State where
  "spentState = exState\<lparr>round := 15, playerHp := 100, numRunes := 1, runes := [spentRune]\<rparr>"

text \<open>A Tsunami rune that used its only charge in the last round, and a state in round
  16 with this rune and one field card that holds the rune's buff.\<close>

definition wornRune :: Rune where
  "wornRune = \<lparr>runeName = ''Tsunami'', runeAttr = \<lparr>type = ATTR_TSUNAMI, level = 60\<rparr>,
     maxCharges = 1, chargesUsed = 1, usedThisRound = 1\<rparr>"

definition wornState :: State where
  "wornState =
     exState\<lparr>round := 16, numRunes := 1, runes := [wornRune],
       field := \<lparr>numCards = 1,
         cards = dodger\<lparr>attr := attr dodger @ [\<lparr>type = ATTR_TSUNAMI, level = 60\<rparr>]\<rparr>
                 # replicate 19 zeroCard\<rparr>\<rparr>"

section \<open>Examples for Guard\<close>

text \<open>A guard with Desperation: Reanimate and 100 hit points, and a guard with 500 hit
  points and no other ability. In \<open>reanimState\<close> the first is the only card of the field
  and the second the only card of the graveyard; in \<open>guardState\<close> the second stands on the
  field between two cards without Guard.\<close>

definition guardA :: Card where
  "guardA =
     \<lparr>name = ''Guard A'', cost = 10, timing = 2, baseAtk = 100, baseHp = 100,
      baseAttr = [\<lparr>type = ATTR_GUARD, level = 0\<rparr>, \<lparr>type = ATTR_D_REANIMATE, level = 0\<rparr>]
                 @ replicate 38 \<lparr>type = ATTR_NONE, level = 0\<rparr>,
      curTiming = 0, atk = 100, curBaseAtk = 100, hp = 100, maxHp = 100,
      attr = [\<lparr>type = ATTR_GUARD, level = 0\<rparr>, \<lparr>type = ATTR_D_REANIMATE, level = 0\<rparr>]\<rparr>"

definition guardB :: Card where
  "guardB =
     \<lparr>name = ''Guard B'', cost = 10, timing = 2, baseAtk = 100, baseHp = 500,
      baseAttr = [\<lparr>type = ATTR_GUARD, level = 0\<rparr>]
                 @ replicate 39 \<lparr>type = ATTR_NONE, level = 0\<rparr>,
      curTiming = 2, atk = 100, curBaseAtk = 100, hp = 500, maxHp = 500,
      attr = [\<lparr>type = ATTR_GUARD, level = 0\<rparr>]\<rparr>"

definition reanimState :: State where
  "reanimState =
     exState\<lparr>field := \<lparr>numCards = 1, cards = guardA # replicate 19 zeroCard\<rparr>,
             grave := \<lparr>numCards = 1, cards = guardB # replicate 19 zeroCard\<rparr>\<rparr>"

definition guardState :: State where
  "guardState =
     exState\<lparr>field := \<lparr>numCards = 3, cards = [dodger, guardB, dodger] @ replicate 17 zeroCard\<rparr>\<rparr>"

section \<open>Fuel\<close>

text \<open>The order in which a result that ran out of fuel is below every result, and any
  other result only below itself.\<close>

definition fuel_le :: "error + 'a \<Rightarrow> error + 'a \<Rightarrow> bool" where
  "fuel_le r r' \<longleftrightarrow> r = Inl OutOfFuel \<or> r = r'"

section \<open>A short battle\<close>

text \<open>A card with Dodge and an attack of 1000 as the only card of the deck, a demon with
  100 hit points and an attack of 10, and a configuration that ends the battle after
  round 6.\<close>

definition striker :: Card where
  "striker =
     \<lparr>name = ''Striker'', cost = 10, timing = 0, baseAtk = 1000, baseHp = 500,
      baseAttr = \<lparr>type = ATTR_DODGE, level = 50\<rparr> # replicate 39 \<lparr>type = ATTR_NONE, level = 0\<rparr>,
      curTiming = 0, atk = 1000, curBaseAtk = 1000, hp = 500, maxHp = 500,
      attr = [\<lparr>type = ATTR_DODGE, level = 50\<rparr>]\<rparr>"

definition weakDemon :: Card where
  "weakDemon =
     \<lparr>name = ''Weak Demon'', cost = 0, timing = 0, baseAtk = 10, baseHp = 100,
      baseAttr = replicate 40 \<lparr>type = ATTR_NONE, level = 0\<rparr>,
      curTiming = 0, atk = 10, curBaseAtk = 10, hp = 100, maxHp = 100, attr = []\<rparr>"

definition battleState :: State where
  "battleState =
     \<lparr>dmgDone = 0, playerHp = 1000, playerMaxHp = 1000, round = 1, numRunes = 0,
      demon = weakDemon, deck = \<lparr>numCards = 1, cards = striker # replicate 19 zeroCard\<rparr>,
      hand = zeroSet, field = zeroSet, grave = zeroSet, runes = [], seedW = 1, seedZ = 2\<rparr>"

definition shortConfig :: Config where
  "shortConfig = \<lparr>maxRounds = 6, avgConcentrate = False\<rparr>"

section \<open>Properties of the attribute operations\<close>

lemma InitCard_copy_filter:
  "InitCard_copy bs acc = acc @ filter (\<lambda>a. type a \<noteq> ATTR_NONE) bs"
  by (induction bs arbitrary: acc) auto

lemma length_shiftLeft [simp]: "length (shiftLeft j n xs) = length xs"
proof (induction j n xs rule: shiftLeft.induct)
  case (1 j n xs)
  then show ?case by (subst shiftLeft.simps) simp
qed

lemma nth_shiftLeft:
  "n < length xs \<Longrightarrow> k < length xs \<Longrightarrow>
   shiftLeft j n xs ! k = (if j \<le> k \<and> k < n then xs ! Suc k else xs ! k)"
proof (induction j n xs arbitrary: k rule: shiftLeft.induct)
  case (1 j n xs)
  show ?case
  proof (cases "j < n")
    case True
    have "shiftLeft j n xs ! k = shiftLeft (Suc j) n (xs[j := xs ! Suc j]) ! k"
      using True by (subst shiftLeft.simps) simp
    also have "\<dots> = (if Suc j \<le> k \<and> k < n then xs[j := xs ! Suc j] ! Suc k
                      else xs[j := xs ! Suc j] ! k)"
      using "1.IH" [OF True, of k] "1.prems" by simp
    also have "\<dots> = (if j \<le> k \<and> k < n then xs ! Suc k else xs ! k)"
      using True "1.prems" by (auto simp: nth_list_update)
    finally show ?thesis .
  next
    case False
    then show ?thesis by (subst shiftLeft.simps) auto
  qed
qed

lemma take_shiftLeft:
  assumes "i < length xs"
  shows "take (length xs - 1) (shiftLeft i (length xs - 1) xs) = take i xs @ drop (Suc i) xs"
proof (rule nth_equalityI)
  show "length (take (length xs - 1) (shiftLeft i (length xs - 1) xs))
        = length (take i xs @ drop (Suc i) xs)"
    using assms by simp
next
  fix k
  assume "k < length (take (length xs - 1) (shiftLeft i (length xs - 1) xs))"
  then have k: "k < length xs - 1" by simp
  then have "take (length xs - 1) (shiftLeft i (length xs - 1) xs) ! k
             = shiftLeft i (length xs - 1) xs ! k" by simp
  also have "\<dots> = (if i \<le> k \<and> k < length xs - 1 then xs ! Suc k else xs ! k)"
    using k by (intro nth_shiftLeft) auto
  also have "\<dots> = (take i xs @ drop (Suc i) xs) ! k"
    using k assms by (auto simp: nth_append min_def)
  finally show "take (length xs - 1) (shiftLeft i (length xs - 1) xs) ! k
                = (take i xs @ drop (Suc i) xs) ! k" .
qed


lemma HasAttr_loop_None: "HasAttr_loop xs t = None \<longleftrightarrow> (\<forall>a \<in> set xs. type a \<noteq> t)"
  by (induction xs) auto

lemma HasAttr_loop_Some_first:
  "HasAttr_loop xs t = Some l \<Longrightarrow>
   \<exists>ys zs. xs = ys @ \<lparr>type = t, level = l\<rparr> # zs \<and> (\<forall>a \<in> set ys. type a \<noteq> t)"
proof (induction xs)
  case Nil
  then show ?case by simp
next
  case (Cons a xs)
  show ?case
  proof (cases "type a = t")
    case True
    with Cons.prems have "a = \<lparr>type = t, level = l\<rparr>" by simp
    then have "a # xs = [] @ \<lparr>type = t, level = l\<rparr> # xs \<and> (\<forall>a \<in> set []. type a \<noteq> t)" by simp
    then show ?thesis by blast
  next
    case False
    with Cons obtain ys zs where "xs = ys @ \<lparr>type = t, level = l\<rparr> # zs"
      and "\<forall>a \<in> set ys. type a \<noteq> t" by auto
    with False have "a # xs = (a # ys) @ \<lparr>type = t, level = l\<rparr> # zs \<and> (\<forall>b \<in> set (a # ys). type b \<noteq> t)"
      by simp
    then show ?thesis by blast
  qed
qed

lemma RemoveAttr_loop_one:
  "lvl \<noteq> -1 \<Longrightarrow> i \<le> length xs \<Longrightarrow>
   RemoveAttr_loop i t lvl xs = take i xs @ remove1 \<lparr>type = t, level = lvl\<rparr> (drop i xs)"
proof (induction i t lvl xs rule: RemoveAttr_loop.induct)
  case (1 i t lvl xs)
  show ?case
  proof (cases "i < length xs")
    case False
    with "1.prems" show ?thesis by (subst RemoveAttr_loop.simps) simp
  next
    case True
    then have dr: "drop i xs = xs ! i # drop (Suc i) xs" by (simp add: Cons_nth_drop_Suc)
    show ?thesis
    proof (cases "type (xs ! i) = t \<and> (level (xs ! i) = lvl \<or> lvl = -1)")
      case match: True
      with "1.prems" have eq: "xs ! i = \<lparr>type = t, level = lvl\<rparr>" by simp
      have "RemoveAttr_loop i t lvl xs = take (length xs - 1) (shiftLeft i (length xs - 1) xs)"
        using True match "1.prems" by (subst RemoveAttr_loop.simps) (simp add: Let_def)
      also have "\<dots> = take i xs @ drop (Suc i) xs" using True by (rule take_shiftLeft)
      finally show ?thesis using dr eq by simp
    next
      case nomatch: False
      with "1.prems" have ne: "xs ! i \<noteq> \<lparr>type = t, level = lvl\<rparr>" by auto
      have "RemoveAttr_loop i t lvl xs = RemoveAttr_loop (Suc i) t lvl xs"
        using True nomatch by (subst RemoveAttr_loop.simps) auto
      also have "\<dots> = take (Suc i) xs @ remove1 \<lparr>type = t, level = lvl\<rparr> (drop (Suc i) xs)"
        using "1.IH"(2) [OF True nomatch] "1.prems" True by simp
      finally show ?thesis using dr ne True by (simp add: take_Suc_conv_app_nth)
    qed
  qed
qed

lemma RemoveAttr_loop_all:
  "i \<le> length xs \<Longrightarrow>
   RemoveAttr_loop i t (-1) xs = take i xs @ filter (\<lambda>a. type a \<noteq> t) (drop i xs)"
proof (induction i t "-1 :: int" xs rule: RemoveAttr_loop.induct)
  case (1 i t xs)
  show ?case
  proof (cases "i < length xs")
    case False
    with "1.prems" show ?thesis by (subst RemoveAttr_loop.simps) simp
  next
    case True
    then have dr: "drop i xs = xs ! i # drop (Suc i) xs" by (simp add: Cons_nth_drop_Suc)
    show ?thesis
    proof (cases "type (xs ! i) = t")
      case match: True
      define xs' where "xs' = take (length xs - 1) (shiftLeft i (length xs - 1) xs)"
      have xs': "xs' = take i xs @ drop (Suc i) xs"
        unfolding xs'_def using True by (rule take_shiftLeft)
      have mc: "type (xs ! i) = t \<and> (level (xs ! i) = -1 \<or> (-1::int) = -1)"
        using match by simp
      note IH = "1.hyps"(1) [OF True mc refl refl]
      have "RemoveAttr_loop i t (-1) xs = RemoveAttr_loop i t (-1) xs'"
        using True match by (subst RemoveAttr_loop.simps) (simp add: Let_def xs'_def)
      also have "\<dots> = take i xs' @ filter (\<lambda>a. type a \<noteq> t) (drop i xs')"
        unfolding xs'_def by (rule IH) (use True in simp_all)
      finally show ?thesis using dr match True xs' by simp
    next
      case nomatch: False
      have "RemoveAttr_loop i t (-1) xs = RemoveAttr_loop (Suc i) t (-1) xs"
        using True nomatch by (subst RemoveAttr_loop.simps) auto
      also have "\<dots> = take (Suc i) xs @ filter (\<lambda>a. type a \<noteq> t) (drop (Suc i) xs)"
        using "1.hyps"(2) [OF True] nomatch True by simp
      finally show ?thesis using dr nomatch True by (simp add: take_Suc_conv_app_nth)
    qed
  qed
qed

text \<open>
  Claim C4. After \<open>InitCard\<close> the current hit points and the maximum hit points are the
  card's base hit points, the attack and the current base attack are its base attack, the
  current timing is its timing, and the attribute list is the base attribute list without
  the \<open>ATTR_NONE\<close> entries, in the same order. The fixed part of the card is untouched.
\<close>

theorem InitCard_resets:
  "hp (InitCard c) = baseHp c \<and> maxHp (InitCard c) = baseHp c \<and>
   atk (InitCard c) = baseAtk c \<and> curBaseAtk (InitCard c) = baseAtk c \<and>
   curTiming (InitCard c) = timing c \<and>
   attr (InitCard c) = filter (\<lambda>a. type a \<noteq> ATTR_NONE) (baseAttr c) \<and>
   name (InitCard c) = name c \<and> cost (InitCard c) = cost c \<and>
   timing (InitCard c) = timing c \<and> baseAtk (InitCard c) = baseAtk c \<and>
   baseHp (InitCard c) = baseHp c \<and> baseAttr (InitCard c) = baseAttr c"
  by (simp add: InitCard_def InitCard_copy_filter)

text \<open>
  Claim C5. \<open>RemoveAttr\<close> with a level other than \<open>-1\<close> removes the first entry whose type
  and level are both the given ones and keeps the other entries in their order
  (\<open>remove1\<close>); afterwards \<open>HasAttr\<close> for that type is false exactly when no entry of the
  type is left. With level \<open>-1\<close> it removes every entry of the type, and \<open>HasAttr\<close> for
  the type is false afterwards.
\<close>

theorem RemoveAttr_first_or_all:
  "(lvl \<noteq> -1 \<longrightarrow>
      attr (RemoveAttr c t lvl) = remove1 \<lparr>type = t, level = lvl\<rparr> (attr c) \<and>
      (HasAttr (RemoveAttr c t lvl) t = None \<longleftrightarrow>
         (\<forall>a \<in> set (remove1 \<lparr>type = t, level = lvl\<rparr> (attr c)). type a \<noteq> t))) \<and>
   attr (RemoveAttr c t (-1)) = filter (\<lambda>a. type a \<noteq> t) (attr c) \<and>
   HasAttr (RemoveAttr c t (-1)) t = None"
proof -
  have one: "attr (RemoveAttr c t lvl) = remove1 \<lparr>type = t, level = lvl\<rparr> (attr c)"
    if "lvl \<noteq> -1"
    using RemoveAttr_loop_one [OF that, of 0 "attr c" t] by (simp add: RemoveAttr_def)
  have all: "attr (RemoveAttr c t (-1)) = filter (\<lambda>a. type a \<noteq> t) (attr c)"
    using RemoveAttr_loop_all [of 0 "attr c" t] by (simp add: RemoveAttr_def)
  have "HasAttr (RemoveAttr c t (-1)) t = None"
    unfolding HasAttr_def all by (simp add: HasAttr_loop_None)
  with one all show ?thesis
    by (simp add: HasAttr_def HasAttr_loop_None)
qed

theorem RemoveAttr_first_or_all_witness:
  "attr (RemoveAttr dodger ATTR_DODGE 60) =
     [\<lparr>type = ATTR_PARRY, level = 10\<rparr>, \<lparr>type = ATTR_DODGE, level = 30\<rparr>,
      \<lparr>type = ATTR_DODGE, level = 60\<rparr>] \<and>
   HasAttr (RemoveAttr dodger ATTR_DODGE 60) ATTR_DODGE \<noteq> None \<and>
   attr (RemoveAttr dodger ATTR_DODGE (-1)) = [\<lparr>type = ATTR_PARRY, level = 10\<rparr>] \<and>
   HasAttr (RemoveAttr dodger ATTR_DODGE (-1)) ATTR_DODGE = None"
  using RemoveAttr_first_or_all [of 60 dodger ATTR_DODGE]
  by (simp add: dodger_def)

section \<open>Properties of \<open>PickNCards\<close>\<close>

lemma PickNCards_count_eq:
  "PickNCards_count i cs ret = ret @ filter (\<lambda>k. hp (cards cs ! k) > 0) [i..<numCards cs]"
proof (induction i cs ret rule: PickNCards_count.induct)
  case (1 i cs ret)
  show ?case
  proof (cases "i < numCards cs")
    case True
    then show ?thesis
      using "1.IH" [OF True] by (subst PickNCards_count.simps) (simp add: upt_conv_Cons)
  next
    case False
    then show ?thesis by (subst PickNCards_count.simps) simp
  qed
qed

lemma PickNCards_pick_mset:
  "n < int numAlive \<Longrightarrow> length ret = numAlive \<Longrightarrow>
   PickNCards_pick i n numAlive ret state = (ret', state') \<Longrightarrow>
   mset ret' = mset ret"
proof (induction i n numAlive ret state rule: PickNCards_pick.induct)
  case (1 i n numAlive ret state)
  show ?case
  proof (cases "int i < n")
    case False
    with "1.prems" show ?thesis by (subst (asm) PickNCards_pick.simps) simp
  next
    case True
    obtain r s1 where R: "Rnd state (numAlive - 1 - i) = (r, s1)" by (cases "Rnd state (numAlive - 1 - i)")
    define ret1 where "ret1 = (if r \<noteq> 0 then ret[i := ret ! (i + r), i + r := ret ! i] else ret)"
    have pos: "0 < numAlive - 1 - i" using True "1.prems"(1) by linarith
    have "r < numAlive - 1 - i"
      using R pos by (auto simp: Rnd_def Let_def split: prod.splits)
    then have ir: "i + r < numAlive" "i < numAlive" by linarith+
    have m1: "mset ret1 = mset ret"
      unfolding ret1_def using ir "1.prems"(2) by (simp add: mset_swap)
    have l1: "length ret1 = numAlive" unfolding ret1_def using "1.prems"(2) by simp
    have step: "PickNCards_pick (Suc i) n numAlive ret1 s1 = (ret', state')"
      using "1.prems"(3) True R by (subst (asm) PickNCards_pick.simps) (simp add: ret1_def)
    have "mset ret' = mset ret1"
      using "1.IH" [OF True refl R [symmetric] ret1_def] "1.prems"(1) l1 step
      by simp
    with m1 show ?thesis by simp
  qed
qed


lemma PickNCards_pick_length:
  "n < int numAlive \<Longrightarrow> length ret = numAlive \<Longrightarrow>
   PickNCards_pick i n numAlive ret state = (ret', state') \<Longrightarrow>
   length ret' = length ret"
  using PickNCards_pick_mset mset_eq_length by blast

lemma PickNCards_lowest_spec:
  assumes "PickNCards_lowest j n ret lowest li = (lo, li')"
    and "i < j"
    and "\<forall>k. i \<le> k \<and> k < j \<longrightarrow> lowest \<le> ret ! k"
    and "lowest = ret ! i \<or> (i < li \<and> li < j \<and> ret ! li = lowest)"
    and "int j \<le> n"
  shows "(\<forall>k. i \<le> k \<and> int k < n \<longrightarrow> lo \<le> ret ! k) \<and>
         (lo = ret ! i \<or> (i < li' \<and> int li' < n \<and> ret ! li' = lo))"
  using assms
proof (induction j n ret lowest li rule: PickNCards_lowest.induct)
  case (1 j n ret lowest li)
  show ?case
  proof (cases "int j < n")
    case False
    with "1.prems"(1) have eq: "lo = lowest" "li' = li"
      by (subst (asm) PickNCards_lowest.simps, simp)+
    have "\<forall>k. i \<le> k \<and> int k < n \<longrightarrow> k < j" using False by auto
    with "1.prems" eq show ?thesis by auto
  next
    case True
    show ?thesis
    proof (cases "ret ! j < lowest")
      case lt: True
      have step: "PickNCards_lowest (Suc j) n ret (ret ! j) j = (lo, li')"
        using "1.prems"(1) True lt by (subst (asm) PickNCards_lowest.simps) simp
      show ?thesis
      proof (rule "1.IH"(1) [OF True lt step])
        show "i < Suc j" using "1.prems"(2) by simp
        show "\<forall>k. i \<le> k \<and> k < Suc j \<longrightarrow> ret ! j \<le> ret ! k"
          using "1.prems"(3) lt by (auto simp: less_Suc_eq)
        show "ret ! j = ret ! i \<or> i < j \<and> j < Suc j \<and> ret ! j = ret ! j"
          using "1.prems"(2) by simp
        show "int (Suc j) \<le> n" using True by simp
      qed
    next
      case ge: False
      have step: "PickNCards_lowest (Suc j) n ret lowest li = (lo, li')"
        using "1.prems"(1) True ge by (subst (asm) PickNCards_lowest.simps) simp
      show ?thesis
      proof (rule "1.IH"(2) [OF True ge step])
        show "i < Suc j" using "1.prems"(2) by simp
        show "\<forall>k. i \<le> k \<and> k < Suc j \<longrightarrow> lowest \<le> ret ! k"
          using "1.prems"(3) ge by (auto simp: less_Suc_eq)
        show "lowest = ret ! i \<or> i < li \<and> li < Suc j \<and> ret ! li = lowest"
          using "1.prems"(4) by auto
        show "int (Suc j) \<le> n" using True by simp
      qed
    qed
  qed
qed

lemma PickNCards_sort_spec:
  assumes "n \<le> int (length ret)"
    and "\<forall>a b. a < b \<and> int b < n \<and> a < i \<longrightarrow> ret ! a \<le> ret ! b"
  shows "mset (PickNCards_sort i n ret) = mset ret \<and>
         (\<forall>a b. a < b \<and> int b < n \<longrightarrow> PickNCards_sort i n ret ! a \<le> PickNCards_sort i n ret ! b)"
  using assms
proof (induction i n ret rule: PickNCards_sort.induct)
  case (1 i n ret)
  show ?case
  proof (cases "int i < n - 1")
    case False
    then have "PickNCards_sort i n ret = ret" by (subst PickNCards_sort.simps) simp
    moreover have "\<forall>a b. a < b \<and> int b < n \<longrightarrow> a < i" using False by auto
    ultimately show ?thesis using "1.prems"(2) by auto
  next
    case True
    obtain lo li where L: "PickNCards_lowest (Suc i) n ret (ret ! i) 0 = (lo, li)"
      by (cases "PickNCards_lowest (Suc i) n ret (ret ! i) 0")
    define ret1 where "ret1 = (if ret ! i \<noteq> lo then ret[i := ret ! li, li := ret ! i] else ret)"
    have low: "(\<forall>k. i \<le> k \<and> int k < n \<longrightarrow> lo \<le> ret ! k) \<and>
               (lo = ret ! i \<or> (i < li \<and> int li < n \<and> ret ! li = lo))"
      by (rule PickNCards_lowest_spec [OF L]) (use True in \<open>auto simp: less_Suc_eq\<close>)
    have len: "length ret1 = length ret" by (simp add: ret1_def)
    have ms: "mset ret1 = mset ret"
      unfolding ret1_def using low True "1.prems"(1) by (auto simp: mset_swap)
    have inv: "\<forall>a b. a < b \<and> int b < n \<and> a < Suc i \<longrightarrow> ret1 ! a \<le> ret1 ! b"
    proof (intro allI impI)
      fix a b
      assume ab: "a < b \<and> int b < n \<and> a < Suc i"
      show "ret1 ! a \<le> ret1 ! b"
      proof (cases "ret ! i = lo")
        case True
        then have r: "ret1 = ret" by (simp add: ret1_def)
        show ?thesis
        proof (cases "a = i")
          case True
          with ab low \<open>ret ! i = lo\<close> r show ?thesis by auto
        next
          case False
          with ab "1.prems"(2) r show ?thesis by auto
        qed
      next
        case False
        with low have li: "i < li" "int li < n" "ret ! li = lo" by auto
        have r: "ret1 = ret[i := ret ! li, li := ret ! i]" using False by (simp add: ret1_def)
        have bl: "b < length ret" "li < length ret" "i < length ret"
          using ab li "1.prems"(1) by auto
        show ?thesis
        proof (cases "a = i")
          case True
          then have "ret1 ! a = lo" using r li bl by (simp add: nth_list_update)
          moreover have "lo \<le> ret1 ! b"
            using r li bl ab True low by (auto simp: nth_list_update)
          ultimately show ?thesis by simp
        next
          case False
          with ab have ai: "a < i" by simp
          then have "ret1 ! a = ret ! a" using r li bl by (simp add: nth_list_update)
          moreover have "ret ! a \<le> ret1 ! b"
            using r li bl ab ai "1.prems"(2) by (auto simp: nth_list_update)
          ultimately show ?thesis by simp
        qed
      qed
    qed
    have step: "PickNCards_sort i n ret = PickNCards_sort (Suc i) n ret1"
      using True L by (subst PickNCards_sort.simps) (simp add: ret1_def)
    have "mset (PickNCards_sort (Suc i) n ret1) = mset ret1 \<and>
          (\<forall>a b. a < b \<and> int b < n \<longrightarrow>
             PickNCards_sort (Suc i) n ret1 ! a \<le> PickNCards_sort (Suc i) n ret1 ! b)"
      using "1.IH" [OF True L [symmetric] refl ret1_def] "1.prems"(1) len inv by simp
    with step ms show ?thesis by simp
  qed
qed

text \<open>
  Claim C6. \<open>PickNCards\<close> returns \<open>min n numAlive\<close>, where \<open>numAlive\<close> is the number of
  cards of the set with hit points above 0; the entries of \<open>ret\<close> below the returned count
  are that many indices of cards of the set with hit points above 0, without duplicates
  and in strictly ascending order.
\<close>

theorem PickNCards_alive_ascending:
  assumes "PickNCards state cs n = (k, ret, state')"
  shows "k = min n (int (length (filter (\<lambda>i. 0 < hp (cards cs ! i)) [0..<numCards cs]))) \<and>
         length (take (nat k) ret) = nat k \<and>
         (\<forall>x \<in> set (take (nat k) ret). x < numCards cs \<and> 0 < hp (cards cs ! x)) \<and>
         distinct (take (nat k) ret) \<and>
         sorted_wrt (<) (take (nat k) ret)"
proof -
  define ret0 where "ret0 = filter (\<lambda>i. 0 < hp (cards cs ! i)) [0..<numCards cs]"
  have c0: "PickNCards_count 0 cs [] = ret0" by (simp add: PickNCards_count_eq ret0_def)
  have s0: "sorted_wrt (<) ret0" unfolding ret0_def by (simp add: sorted_wrt_filter)
  have d0: "distinct ret0" unfolding ret0_def by simp
  have set0: "\<forall>x \<in> set ret0. x < numCards cs \<and> 0 < hp (cards cs ! x)"
    unfolding ret0_def by simp
  define n' where "n' = min n (int (length ret0))"
  have unf: "PickNCards state cs n =
      (if n' = int (length ret0) then (n', ret0, state)
       else (let (ret', state') = PickNCards_pick 0 n' (length ret0) ret0 state
             in (n', PickNCards_sort 0 n' ret', state')))"
    unfolding n'_def by (simp add: PickNCards_def c0 Let_def)
  have goal_k: "k = n' \<Longrightarrow>
      k = min n (int (length (filter (\<lambda>i. 0 < hp (cards cs ! i)) [0..<numCards cs])))"
    by (simp add: n'_def ret0_def)
  show ?thesis
  proof (cases "n' = int (length ret0)")
    case True
    have "PickNCards state cs n = (n', ret0, state)"
      by (subst unf) (use True in simp)
    with assms have kr: "k = n'" "ret = ret0" by auto
    have tk: "take (nat k) ret = ret0" unfolding kr True by simp
    have A2: "length (take (nat k) ret) = nat k" unfolding kr True by simp
    have A3: "\<forall>x \<in> set (take (nat k) ret). x < numCards cs \<and> 0 < hp (cards cs ! x)"
      unfolding tk by (rule set0)
    have A4: "distinct (take (nat k) ret)" unfolding tk by (rule d0)
    have A5: "sorted_wrt (<) (take (nat k) ret)" unfolding tk by (rule s0)
    show ?thesis using goal_k [OF kr(1)] A2 A3 A4 A5 by blast
  next
    case False
    then have lt: "n' < int (length ret0)" by (simp add: n'_def)
    obtain ret1 s1 where P: "PickNCards_pick 0 n' (length ret0) ret0 state = (ret1, s1)"
      by (cases "PickNCards_pick 0 n' (length ret0) ret0 state")
    have "PickNCards state cs n = (n', PickNCards_sort 0 n' ret1, s1)"
      by (subst unf) (use False P in simp)
    with assms have res: "k = n'" "ret = PickNCards_sort 0 n' ret1" by auto
    have m1: "mset ret1 = mset ret0" by (rule PickNCards_pick_mset [OF lt refl P])
    then have l1: "length ret1 = length ret0" by (rule mset_eq_length)
    have srt: "mset ret = mset ret1 \<and> (\<forall>a b. a < b \<and> int b < n' \<longrightarrow> ret ! a \<le> ret ! b)"
      unfolding res using lt l1 by (intro PickNCards_sort_spec) auto
    then have m: "mset ret = mset ret0" using m1 by simp
    then have len: "length ret = length ret0" by (rule mset_eq_length)
    have dist: "distinct ret" using m d0 by (metis mset_eq_imp_distinct_iff)
    have sub: "set ret = set ret0" using m by (rule mset_eq_setD)
    have kl: "nat k \<le> length ret" using res(1) lt len by linarith
    have A5: "sorted_wrt (<) (take (nat k) ret)"
    proof (subst sorted_wrt_iff_nth_less, intro allI impI)
      fix a b
      assume ab: "a < b" and "b < length (take (nat k) ret)"
      then have b: "b < nat k" by simp
      then have "int b < n'" using res(1) by linarith
      with srt ab have "ret ! a \<le> ret ! b" by blast
      moreover have "ret ! a \<noteq> ret ! b"
        using dist ab b kl by (simp add: nth_eq_iff_index_eq)
      ultimately show "take (nat k) ret ! a < take (nat k) ret ! b" using ab b by simp
    qed
    have A3: "\<forall>x \<in> set (take (nat k) ret). x < numCards cs \<and> 0 < hp (cards cs ! x)"
      using set0 sub by (auto dest: in_set_takeD)
    have A4: "distinct (take (nat k) ret)" using dist by simp
    have A2: "length (take (nat k) ret) = nat k" using kl by simp
    show ?thesis using goal_k [OF res(1)] A2 A3 A4 A5 by blast
  qed
qed

theorem PickNCards_alive_ascending_witness:
  "fst (PickNCards exState exField 1) = 1 \<and>
   set (take 1 (fst (snd (PickNCards exState exField 1)))) \<subseteq> {0, 2}"
proof -
  obtain k ret s' where eq: "PickNCards exState exField 1 = (k, ret, s')"
    by (cases "PickNCards exState exField 1")
  have al: "filter (\<lambda>i. 0 < hp (cards exField ! i)) [0..<numCards exField] = [0, 2]"
    by code_simp
  have h: "\<forall>x. x < numCards exField \<and> 0 < hp (cards exField ! x) \<longrightarrow> x = 0 \<or> x = 2"
  proof (intro allI impI)
    fix x assume "x < numCards exField \<and> 0 < hp (cards exField ! x)"
    then have "x \<in> set (filter (\<lambda>i. 0 < hp (cards exField ! i)) [0..<numCards exField])"
      by simp
    then show "x = 0 \<or> x = 2" unfolding al by simp
  qed
  have "k = min 1 (int (length (filter (\<lambda>i. 0 < hp (cards exField ! i)) [0..<numCards exField])))"
    and "\<forall>x \<in> set (take (nat k) ret). x < numCards exField \<and> 0 < hp (cards exField ! x)"
    using PickNCards_alive_ascending [OF eq] by blast+
  then have "k = 1" and "\<forall>x \<in> set (take 1 ret). x = 0 \<or> x = 2"
    unfolding al using h by auto
  then show ?thesis using eq by auto
qed

section \<open>Class buffs: adding and removing\<close>

lemma Suc_le_conv_ne: "Suc j \<le> i \<longleftrightarrow> j \<le> i \<and> i \<noteq> j"
  by auto

lemma HasAttr_loop_append_last: "HasAttr_loop (xs @ [a]) (type a) \<noteq> None"
  by (induction xs) auto

lemma AddBuffToCard_then_remove:
  assumes "AddBuffToCard t buff M = Inr t2"
  shows "hasAttr t2 buff"
    and "maxHp (RemoveBuffFromField_card t2 buff M) = maxHp t"
    and "0 \<le> atk t \<Longrightarrow> atk (RemoveBuffFromField_card t2 buff M) = atk t"
    and "0 \<le> curBaseAtk t \<Longrightarrow> curBaseAtk (RemoveBuffFromField_card t2 buff M) = curBaseAtk t"
  using assms HasAttr_loop_append_last [of "attr t" "\<lparr>type = buff, level = M\<rparr>"]
  by (auto simp: hasAttr_def AddBuffToCard_def AddAttr_def RemoveBuffFromField_card_def RemoveAttr_def
      HasAttr_def Let_def isHpBuff_def isAtkBuff_def split: if_splits)

lemma AddBuffToField_loop_nth:
  assumes "AddBuffToField_loop j c cls buff M f = Inr f'"
  shows "numCards f' = numCards f \<and> length (cards f') = length (cards f) \<and>
         (\<forall>i < length (cards f).
            if j \<le> i \<and> i < numCards f \<and> i \<noteq> c \<and> (cls = ATTR_NONE \<or> hasAttr (cards f ! i) cls)
            then AddBuffToCard (cards f ! i) buff M = Inr (cards f' ! i)
            else cards f' ! i = cards f ! i)"
  using assms
proof (induction j c cls buff M f rule: AddBuffToField_loop.induct)
  case (1 j c cls buff M f)
  show ?case
  proof (cases "j < numCards f")
    case False
    with "1.prems" have "f' = f" by (subst (asm) AddBuffToField_loop.simps) simp
    with False show ?thesis by auto
  next
    case True
    show ?thesis
    proof (cases "c = j")
      case cj: True
      have "AddBuffToField_loop (Suc j) c cls buff M f = Inr f'"
        using "1.prems" True cj by (subst (asm) AddBuffToField_loop.simps) simp
      from "1.IH"(1) [OF True cj this] cj show ?thesis
        by (simp add: Suc_le_conv_ne cong: conj_cong)
    next
      case ncj: False
      show ?thesis
      proof (cases "cls = ATTR_NONE \<or> hasAttr (cards f ! j) cls")
        case aff: True
        from "1.prems" True ncj aff obtain c2 where
          c2: "AddBuffToCard (cards f ! j) buff M = Inr c2" and
          rec: "AddBuffToField_loop (Suc j) c cls buff M (f\<lparr>cards := (cards f)[j := c2]\<rparr>) = Inr f'"
          by (subst (asm) AddBuffToField_loop.simps)
             (auto simp: bindE_def split: sum.splits)
        note IH = "1.IH"(2) [OF True ncj aff c2 rec]
        show ?thesis
        proof (intro conjI allI impI)
          show "numCards f' = numCards f" using IH by simp
          show "length (cards f') = length (cards f)" using IH by simp
          fix i assume i: "i < length (cards f)"
          then have len: "i < length (cards (f\<lparr>cards := (cards f)[j := c2]\<rparr>))" by simp
          from IH have "\<forall>i<length (cards (f\<lparr>cards := (cards f)[j := c2]\<rparr>)).
             if Suc j \<le> i \<and> i < numCards (f\<lparr>cards := (cards f)[j := c2]\<rparr>) \<and> i \<noteq> c \<and>
                (cls = ATTR_NONE \<or> hasAttr (cards (f\<lparr>cards := (cards f)[j := c2]\<rparr>) ! i) cls)
             then AddBuffToCard (cards (f\<lparr>cards := (cards f)[j := c2]\<rparr>) ! i) buff M = Inr (cards f' ! i)
             else cards f' ! i = cards (f\<lparr>cards := (cards f)[j := c2]\<rparr>) ! i" by blast
          note IHi = this [rule_format, OF len]
          show "if j \<le> i \<and> i < numCards f \<and> i \<noteq> c \<and> (cls = ATTR_NONE \<or> hasAttr (cards f ! i) cls)
                then AddBuffToCard (cards f ! i) buff M = Inr (cards f' ! i)
                else cards f' ! i = cards f ! i"
          proof (cases "i = j")
            case True
            with IHi i c2 aff ncj \<open>j < numCards f\<close> show ?thesis
              by (auto simp: Suc_le_conv_ne split: if_splits)
          next
            case False
            then have "j \<noteq> i" by simp
            with IHi i False show ?thesis by (auto simp: Suc_le_conv_ne split: if_splits)
          qed
        qed
      next
        case naff: False
        have "AddBuffToField_loop (Suc j) c cls buff M f = Inr f'"
          using "1.prems" True ncj naff by (subst (asm) AddBuffToField_loop.simps) simp
        note IH = "1.IH"(3) [OF True ncj naff this]
        show ?thesis
        proof (intro conjI allI impI)
          show "numCards f' = numCards f" using IH by simp
          show "length (cards f') = length (cards f)" using IH by simp
          fix i assume i: "i < length (cards f)"
          show "if j \<le> i \<and> i < numCards f \<and> i \<noteq> c \<and> (cls = ATTR_NONE \<or> hasAttr (cards f ! i) cls)
                then AddBuffToCard (cards f ! i) buff M = Inr (cards f' ! i)
                else cards f' ! i = cards f ! i"
            using IH [THEN conjunct2, THEN conjunct2, rule_format, OF i] naff
            by (cases "i = j") (auto simp: Suc_le_conv_ne split: if_splits)
        qed
      qed
    qed
  qed
qed

lemma RemoveBuffFromField_loop_nth:
  "numCards (RemoveBuffFromField_loop j c buff M f) = numCards f \<and>
   length (cards (RemoveBuffFromField_loop j c buff M f)) = length (cards f) \<and>
   (\<forall>i < length (cards f).
      cards (RemoveBuffFromField_loop j c buff M f) ! i =
        (if j \<le> i \<and> i < numCards f \<and> i \<noteq> c \<and> hasAttr (cards f ! i) buff
         then RemoveBuffFromField_card (cards f ! i) buff M else cards f ! i))"
proof (induction j c buff M f rule: RemoveBuffFromField_loop.induct)
  case (1 j c buff M f)
  show ?case
  proof (cases "j < numCards f")
    case False
    then have "RemoveBuffFromField_loop j c buff M f = f"
      by (subst RemoveBuffFromField_loop.simps) simp
    with False show ?thesis by auto
  next
    case True
    show ?thesis
    proof (cases "c = j")
      case cj: True
      have "RemoveBuffFromField_loop j c buff M f = RemoveBuffFromField_loop (Suc j) c buff M f"
        using True cj by (subst RemoveBuffFromField_loop.simps) simp
      with "1.IH"(1) [OF True cj] cj show ?thesis
        by (simp add: Suc_le_conv_ne cong: conj_cong)
    next
      case ncj: False
      show ?thesis
      proof (cases "hasAttr (cards f ! j) buff")
        case has: True
        define f1 where "f1 = f\<lparr>cards := (cards f)[j := RemoveBuffFromField_card (cards f ! j) buff M]\<rparr>"
        have st: "RemoveBuffFromField_loop j c buff M f = RemoveBuffFromField_loop (Suc j) c buff M f1"
          using True ncj has by (subst RemoveBuffFromField_loop.simps) (simp add: f1_def)
        note IH = "1.IH"(2) [OF True ncj has, folded f1_def]
        show ?thesis unfolding st
        proof (intro conjI allI impI)
          show "numCards (RemoveBuffFromField_loop (Suc j) c buff M f1) = numCards f"
            using IH by (simp add: f1_def)
          show "length (cards (RemoveBuffFromField_loop (Suc j) c buff M f1)) = length (cards f)"
            using IH by (simp add: f1_def)
          fix i assume i: "i < length (cards f)"
          then have *: "cards (RemoveBuffFromField_loop (Suc j) c buff M f1) ! i =
             (if Suc j \<le> i \<and> i < numCards f1 \<and> i \<noteq> c \<and> hasAttr (cards f1 ! i) buff
              then RemoveBuffFromField_card (cards f1 ! i) buff M else cards f1 ! i)"
            using IH by (simp add: f1_def)
          show "cards (RemoveBuffFromField_loop (Suc j) c buff M f1) ! i =
             (if j \<le> i \<and> i < numCards f \<and> i \<noteq> c \<and> hasAttr (cards f ! i) buff
              then RemoveBuffFromField_card (cards f ! i) buff M else cards f ! i)"
          proof (cases "i = j")
            case True
            then show ?thesis using * i has ncj \<open>j < numCards f\<close>
              by (simp add: f1_def Suc_le_conv_ne)
          next
            case False
            then have "j \<noteq> i" by simp
            with False show ?thesis using * i
              by (simp add: f1_def Suc_le_conv_ne)
          qed
        qed
      next
        case nhas: False
        have st: "RemoveBuffFromField_loop j c buff M f = RemoveBuffFromField_loop (Suc j) c buff M f"
          using True ncj nhas by (subst RemoveBuffFromField_loop.simps) simp
        note IH = "1.IH"(3) [OF True ncj nhas]
        show ?thesis unfolding st
        proof (intro conjI allI impI)
          show "numCards (RemoveBuffFromField_loop (Suc j) c buff M f) = numCards f"
            using IH by simp
          show "length (cards (RemoveBuffFromField_loop (Suc j) c buff M f)) = length (cards f)"
            using IH by simp
          fix i assume i: "i < length (cards f)"
          show "cards (RemoveBuffFromField_loop (Suc j) c buff M f) ! i =
             (if j \<le> i \<and> i < numCards f \<and> i \<noteq> c \<and> hasAttr (cards f ! i) buff
              then RemoveBuffFromField_card (cards f ! i) buff M else cards f ! i)"
            using IH [THEN conjunct2, THEN conjunct2, rule_format, OF i] nhas
            by (cases "i = j") (auto simp: Suc_le_conv_ne split: if_splits)
        qed
      qed
    qed
  qed
qed

text \<open>
  Claim C8, as stated, does not hold: \<open>RemoveBuffFromField\<close> floors the current base attack
  at 0 as it floors the attack, so a card with attack 0 and a negative current base attack
  does not get its current base attack back.
\<close>

theorem class_buff_round_trip_counterexample:
  "0 \<le> atk (fieldCard drainedState 1) \<and>
   (case AddBuffToField drainedState 0 ATTR_FOREST ATTR_FOREST_ATK_BUFF 10 of
      Inl e \<Rightarrow> False
    | Inr s1 \<Rightarrow>
        curBaseAtk (fieldCard drainedState 1) = - 50 \<and>
        curBaseAtk (fieldCard (RemoveBuffFromField s1 0 ATTR_FOREST_ATK_BUFF 10) 1) = 0)"
  by code_simp

text \<open>
  Claim C8, amended. Let \<open>AddBuffToField\<close> apply a buff of level \<open>M\<close> from the card at
  index \<open>c\<close> to the cards of a class, and let \<open>RemoveBuffFromField\<close> with the same card,
  buff and level follow it with nothing in between. Every card the buff was applied to (a
  field card other than \<open>c\<close>, of the class, or any card when the class is \<open>ATTR_NONE\<close>)
  whose attack and current base attack were both at least 0 has its attack, its current
  base attack and its maximum hit points back.
\<close>

theorem class_buff_round_trip:
  assumes "AddBuffToField state c cls buff M = Inr s1"
    and "numCards (field state) \<le> length (cards (field state))"
    and "i < numCards (field state)" and "i \<noteq> c"
    and "cls = ATTR_NONE \<or> hasAttr (fieldCard state i) cls"
    and "0 \<le> atk (fieldCard state i)" and "0 \<le> curBaseAtk (fieldCard state i)"
  shows "atk (fieldCard (RemoveBuffFromField s1 c buff M) i) = atk (fieldCard state i) \<and>
         curBaseAtk (fieldCard (RemoveBuffFromField s1 c buff M) i) = curBaseAtk (fieldCard state i) \<and>
         maxHp (fieldCard (RemoveBuffFromField s1 c buff M) i) = maxHp (fieldCard state i)"
proof -
  define f where "f = field state"
  from assms(1) obtain f1 where
    f1: "AddBuffToField_loop 0 c cls buff M f = Inr f1" and s1: "s1 = state\<lparr>field := f1\<rparr>"
    by (auto simp: AddBuffToField_def bindE_def f_def split: sum.splits)
  have il: "i < length (cards f)" using assms(2,3) by (simp add: f_def)
  note A = AddBuffToField_loop_nth [OF f1]
  have add: "AddBuffToCard (cards f ! i) buff M = Inr (cards f1 ! i)"
    using A [THEN conjunct2, THEN conjunct2, rule_format, OF il] assms(3,4,5)
    by (simp add: f_def fieldCard_def)
  have il1: "i < length (cards f1)" "i < numCards f1" using A il assms(3) by (simp_all add: f_def)
  note R = RemoveBuffFromField_loop_nth [of 0 c buff M f1]
  have rem: "cards (RemoveBuffFromField_loop 0 c buff M f1) ! i
             = RemoveBuffFromField_card (cards f1 ! i) buff M"
    using R [THEN conjunct2, THEN conjunct2, rule_format, OF il1(1)] il1(2) assms(4)
      AddBuffToCard_then_remove(1) [OF add] by simp
  have fc: "fieldCard (RemoveBuffFromField s1 c buff M) i
            = RemoveBuffFromField_card (cards f1 ! i) buff M"
    by (simp add: fieldCard_def RemoveBuffFromField_def s1 rem)
  show ?thesis
    unfolding fc using AddBuffToCard_then_remove(2-4) [OF add] assms(6,7)
    by (simp add: fieldCard_def f_def)
qed

theorem class_buff_round_trip_witness:
  "(case AddBuffToField forestState 0 ATTR_FOREST ATTR_FOREST_ATK_BUFF 10 of
      Inl e \<Rightarrow> False
    | Inr s1 \<Rightarrow>
        atk (fieldCard (RemoveBuffFromField s1 0 ATTR_FOREST_ATK_BUFF 10) 1) = 100 \<and>
        curBaseAtk (fieldCard (RemoveBuffFromField s1 0 ATTR_FOREST_ATK_BUFF 10) 1) = 100 \<and>
        maxHp (fieldCard (RemoveBuffFromField s1 0 ATTR_FOREST_ATK_BUFF 10) 1) = 500)"
proof -
  have "case AddBuffToField forestState 0 ATTR_FOREST ATTR_FOREST_ATK_BUFF 10 of
          Inl e \<Rightarrow> False | Inr s1 \<Rightarrow> True"
    by code_simp
  then obtain s1 where
    s1: "AddBuffToField forestState 0 ATTR_FOREST ATTR_FOREST_ATK_BUFF 10 = Inr s1"
    by (auto split: sum.splits)
  have h: "numCards (field forestState) \<le> length (cards (field forestState))"
    "1 < numCards (field forestState)" "(1::nat) \<noteq> 0"
    "ATTR_FOREST = ATTR_NONE \<or> hasAttr (fieldCard forestState 1) ATTR_FOREST"
    "0 \<le> atk (fieldCard forestState 1)" "0 \<le> curBaseAtk (fieldCard forestState 1)"
    by code_simp+
  have v: "atk (fieldCard forestState 1) = 100" "curBaseAtk (fieldCard forestState 1) = 100"
    "maxHp (fieldCard forestState 1) = 500"
    by code_simp+
  show ?thesis
    using class_buff_round_trip [OF s1 h] v by (simp add: s1)
qed

section \<open>The battle loop\<close>

lemma bindE_Inr_iff:
  "bindE m f = Inr y \<longleftrightarrow> (\<exists>x. m = Inr x \<and> f x = Inr y)"
  by (cases m) (simp_all add: bindE_def)

lemma Simulate_loop_exit:
  "Simulate_loop fuel cfg x state h = Inr (s', h') \<Longrightarrow> \<not> continues cfg s'"
proof (induction fuel arbitrary: state h)
  case 0
  then show ?case by simp
next
  case (Suc fuel)
  show ?case
  proof (cases "continues cfg state")
    case False
    with Suc.prems show ?thesis by simp
  next
    case True
    let ?hit = "if round state = x then True else h"
    let ?s1 = "DecreaseTimers state"
    show ?thesis
    proof (cases "round ?s1 mod 2 = 0")
      case even: True
      from Suc.prems True even obtain s2 s3 where
        "PlayCardsFromDeck ?s1 = Inr s2" "PlayCardsFromHand fuel s2 = Inr s3" and
        r: "(if playerHp s3 \<le> 0 then Inr (s3, ?hit)
             else bindE (SimPlayer fuel cfg s3) (\<lambda>s4.
                    Simulate_loop fuel cfg x (s4\<lparr>round := round s4 + 1\<rparr>) ?hit)) = Inr (s', h')"
        by (auto simp: bindE_Inr_iff Let_def)
      show ?thesis
      proof (cases "playerHp s3 \<le> 0")
        case True
        with r have "s' = s3" by simp
        with True show ?thesis by (simp add: continues_def)
      next
        case False
        with r obtain s4 where
          "Simulate_loop fuel cfg x (s4\<lparr>round := round s4 + 1\<rparr>) ?hit = Inr (s', h')"
          by (auto simp: bindE_Inr_iff)
        then show ?thesis by (rule Suc.IH)
      qed
    next
      case odd: False
      from Suc.prems True odd obtain s2 where
        "Simulate_loop fuel cfg x (s2\<lparr>round := round s2 + 1\<rparr>) ?hit = Inr (s', h')"
        by (auto simp: bindE_Inr_iff Let_def)
      then show ?thesis by (rule Suc.IH)
    qed
  qed
qed

text \<open>
  Claim C1, as stated, does not hold: the loop of \<open>Simulate\<close> tests the field, the deck and
  the hand, not the graveyard. With a living player, a round within \<open>maxRounds\<close>, and
  cards in the graveyard only, the loop ends at once.
\<close>

theorem Simulate_exit_condition_counterexample:
  "\<not> (playerHp graveOnly \<le> 0 \<or>
      (numCards (deck graveOnly) = 0 \<and> numCards (hand graveOnly) = 0 \<and>
       numCards (field graveOnly) = 0 \<and> numCards (grave graveOnly) = 0) \<or>
      round graveOnly > maxRounds exConfig) \<and>
   Simulate 1 exConfig graveOnly 50 False = Inr (graveOnly\<lparr>round := round graveOnly - 1\<rparr>, False)"
  by (simp add: graveOnly_def exState_def exConfig_def zeroSet_def Simulate_def bindE_def
      continues_def)

text \<open>
  Claim C1, amended. The loop of \<open>Simulate\<close> goes on exactly while the player's hit points
  are above 0, the field, the deck or the hand holds a card, and the round is at most
  \<open>maxRounds\<close>. Where this fails at the loop test, \<open>Simulate\<close> returns the state with the
  round decremented by one; where it holds, the body runs (and may leave the loop through
  its \<open>break\<close>, taken when the player's hit points are at most 0 after the cards are
  played). Whenever \<open>Simulate\<close> returns, the state in which the loop ended has the player's
  hit points at most 0, or field, deck and hand all empty, or the round above
  \<open>maxRounds\<close>, and the result is that state with the round decremented by exactly one.
\<close>

theorem Simulate_exit_condition:
  "(continues cfg state \<longleftrightarrow>
      \<not> (playerHp state \<le> 0 \<or>
         (numCards (field state) = 0 \<and> numCards (deck state) = 0 \<and> numCards (hand state) = 0) \<or>
         round state > maxRounds cfg)) \<and>
   (\<not> continues cfg state \<longrightarrow>
      Simulate (Suc fuel) cfg state x h = Inr (state\<lparr>round := round state - 1\<rparr>, h)) \<and>
   (continues cfg state \<longrightarrow>
      Simulate_loop (Suc fuel) cfg x state h =
        (let hit = (if round state = x then True else h); s1 = DecreaseTimers state
         in if round s1 mod 2 = 0 then
              bindE (PlayCardsFromDeck s1) (\<lambda>s2.
              bindE (PlayCardsFromHand fuel s2) (\<lambda>s3.
                if playerHp s3 \<le> 0 then Inr (s3, hit)
                else bindE (SimPlayer fuel cfg s3) (\<lambda>s4.
                       Simulate_loop fuel cfg x (s4\<lparr>round := round s4 + 1\<rparr>) hit)))
            else bindE (SimDemon fuel s1) (\<lambda>s2.
                   Simulate_loop fuel cfg x (s2\<lparr>round := round s2 + 1\<rparr>) hit))) \<and>
   (\<forall>s' h'. Simulate n cfg state x h = Inr (s', h') \<longrightarrow>
      (\<exists>s1. Simulate_loop n cfg x state h = Inr (s1, h') \<and>
            s' = s1\<lparr>round := round s1 - 1\<rparr> \<and>
            (playerHp s1 \<le> 0 \<or>
             (numCards (field s1) = 0 \<and> numCards (deck s1) = 0 \<and> numCards (hand s1) = 0) \<or>
             round s1 > maxRounds cfg)))"
proof (intro conjI impI allI)
  show "continues cfg state \<longleftrightarrow>
      \<not> (playerHp state \<le> 0 \<or>
         (numCards (field state) = 0 \<and> numCards (deck state) = 0 \<and> numCards (hand state) = 0) \<or>
         round state > maxRounds cfg)"
    by (auto simp: continues_def)
next
  assume "\<not> continues cfg state"
  then show "Simulate (Suc fuel) cfg state x h = Inr (state\<lparr>round := round state - 1\<rparr>, h)"
    by (simp add: Simulate_def bindE_def)
next
  assume "continues cfg state"
  then show "Simulate_loop (Suc fuel) cfg x state h =
        (let hit = (if round state = x then True else h); s1 = DecreaseTimers state
         in if round s1 mod 2 = 0 then
              bindE (PlayCardsFromDeck s1) (\<lambda>s2.
              bindE (PlayCardsFromHand fuel s2) (\<lambda>s3.
                if playerHp s3 \<le> 0 then Inr (s3, hit)
                else bindE (SimPlayer fuel cfg s3) (\<lambda>s4.
                       Simulate_loop fuel cfg x (s4\<lparr>round := round s4 + 1\<rparr>) hit)))
            else bindE (SimDemon fuel s1) (\<lambda>s2.
                   Simulate_loop fuel cfg x (s2\<lparr>round := round s2 + 1\<rparr>) hit))"
    by simp
next
  fix s' h'
  assume "Simulate n cfg state x h = Inr (s', h')"
  then obtain s1 where l: "Simulate_loop n cfg x state h = Inr (s1, h')"
    and s': "s' = s1\<lparr>round := round s1 - 1\<rparr>"
    by (auto simp: Simulate_def bindE_Inr_iff)
  from Simulate_loop_exit [OF l]
  have "playerHp s1 \<le> 0 \<or>
        (numCards (field s1) = 0 \<and> numCards (deck s1) = 0 \<and> numCards (hand s1) = 0) \<or>
        round s1 > maxRounds cfg"
    by (auto simp: continues_def)
  with l s' show "\<exists>s1. Simulate_loop n cfg x state h = Inr (s1, h') \<and>
            s' = s1\<lparr>round := round s1 - 1\<rparr> \<and>
            (playerHp s1 \<le> 0 \<or>
             (numCards (field s1) = 0 \<and> numCards (deck s1) = 0 \<and> numCards (hand s1) = 0) \<or>
             round s1 > maxRounds cfg)"
    by blast
qed

theorem Simulate_exit_condition_witness:
  "Simulate (Suc 0) exConfig graveOnly 50 False
     = Inr (graveOnly\<lparr>round := round graveOnly - 1\<rparr>, False) \<and>
   Simulate_loop (Suc 0) exConfig 50 exState False = Inl OutOfFuel"
proof -
  have a: "\<not> continues exConfig graveOnly"
    by (simp add: continues_def graveOnly_def exState_def exConfig_def zeroSet_def)
  have b: "continues exConfig exState"
    by (simp add: continues_def exState_def exConfig_def exField_def)
  have c: "round (DecreaseTimers exState) mod 2 \<noteq> 0"
    by (simp add: DecreaseTimers_def exState_def)
  have d: "SimDemon 0 (DecreaseTimers exState) = Inr (DecreaseTimers exState)"
    by (simp add: SimDemon_def DecreaseTimers_def exState_def)
  from Simulate_exit_condition [of exConfig graveOnly 0 50 False] a
  have "Simulate (Suc 0) exConfig graveOnly 50 False
          = Inr (graveOnly\<lparr>round := round graveOnly - 1\<rparr>, False)" by blast
  moreover from Simulate_exit_condition [of exConfig exState 0 50 False] b
  have "Simulate_loop (Suc 0) exConfig 50 exState False =
        (let hit = (if round exState = 50 then True else False); s1 = DecreaseTimers exState
         in if round s1 mod 2 = 0 then
              bindE (PlayCardsFromDeck s1) (\<lambda>s2.
              bindE (PlayCardsFromHand 0 s2) (\<lambda>s3.
                if playerHp s3 \<le> 0 then Inr (s3, hit)
                else bindE (SimPlayer 0 exConfig s3) (\<lambda>s4.
                       Simulate_loop 0 exConfig 50 (s4\<lparr>round := round s4 + 1\<rparr>) hit)))
            else bindE (SimDemon 0 s1) (\<lambda>s2.
                   Simulate_loop 0 exConfig 50 (s2\<lparr>round := round s2 + 1\<rparr>) hit))" by blast
  then have "Simulate_loop (Suc 0) exConfig 50 exState False = Inl OutOfFuel"
    using c d by (simp add: Let_def bindE_def)
  ultimately show ?thesis by simp
qed

section \<open>Toxic Clouds\<close>

lemma fieldCard_setFieldCard:
  "fieldCard (setFieldCard s i c) j =
     (if j = i \<and> i < length (cards (field s)) then c else fieldCard s j)"
  by (cases "i < length (cards (field s))") (auto simp: fieldCard_def setFieldCard_def list_update_beyond)

lemma field_setFieldCard [simp]:
  "numCards (field (setFieldCard s i c)) = numCards (field s)"
  "length (cards (field (setFieldCard s i c))) = length (cards (field s))"
  by (simp_all add: setFieldCard_def)

lemma hasAttr_hp_update [simp]: "hasAttr (c\<lparr>hp := h\<rparr>) t = hasAttr c t"
  by (simp add: hasAttr_def HasAttr_def)

lemma toxicClouds_stop:
  "j < numCards (field s) \<Longrightarrow> 0 < hp (fieldCard s j) \<Longrightarrow> hasAttr (fieldCard s j) ATTR_IMMUNITY \<Longrightarrow>
   SimDemon_toxicClouds (Suc fuel) j a s = Inr s"
  by simp

lemma toxicClouds_skip:
  "j < numCards (field s) \<Longrightarrow> hp (fieldCard s j) \<le> 0 \<Longrightarrow>
   SimDemon_toxicClouds (Suc fuel) j a s = SimDemon_toxicClouds fuel (Suc j) a s"
  by simp

lemma toxicClouds_survivor:
  assumes "j < numCards (field s)" and "numCards (field s) \<le> length (cards (field s))"
    and "0 < hp (fieldCard s j)" and "\<not> hasAttr (fieldCard s j) ATTR_IMMUNITY"
    and "level a < hp (fieldCard s j)" and "numAttr (fieldCard s j) < MAX_ATTR"
  shows "SimDemon_toxicClouds (Suc fuel) j a s =
         SimDemon_toxicClouds fuel (Suc j) a (setFieldCard s j (toxicHit a (fieldCard s j)))"
proof -
  have m: "min (level a) (hp (fieldCard s j)) = level a" using assms(5) by simp
  have jl: "j < length (cards (field s))" using assms(1,2) by simp
  have set2: "setFieldCard (setFieldCard s j c1) j c2 = setFieldCard s j c2" for c1 c2
    by (simp add: setFieldCard_def)
  show ?thesis
    using assms jl
    by (simp add: m Let_def fieldCard_setFieldCard toxicHit_def AddAttr_def bindE_def set2)
qed

lemma toxicClouds_prefix:
  assumes "k < numCards (field s)" and "numCards (field s) \<le> length (cards (field s))"
    and "0 < hp (fieldCard s k)" and "hasAttr (fieldCard s k) ATTR_IMMUNITY"
    and "\<forall>i. j \<le> i \<and> i < k \<longrightarrow>
           hp (fieldCard s i) \<le> 0 \<or>
           (\<not> hasAttr (fieldCard s i) ATTR_IMMUNITY \<and> level a < hp (fieldCard s i) \<and>
            numAttr (fieldCard s i) < MAX_ATTR)"
    and "j \<le> k" and "k - j < fuel"
  shows "\<exists>s'. SimDemon_toxicClouds fuel j a s = Inr s' \<and>
           s' = s\<lparr>field := (field s)\<lparr>cards := cards (field s')\<rparr>\<rparr> \<and>
           length (cards (field s')) = length (cards (field s)) \<and>
           (\<forall>i. i < j \<or> k \<le> i \<longrightarrow> fieldCard s' i = fieldCard s i) \<and>
           (\<forall>i. j \<le> i \<and> i < k \<longrightarrow> fieldCard s' i = toxicHit a (fieldCard s i))"
  using assms
proof (induction fuel arbitrary: j s)
  case 0
  then show ?case by simp
next
  case (Suc fuel)
  show ?case
  proof (cases "j = k")
    case True
    have "SimDemon_toxicClouds (Suc fuel) j a s = Inr s"
      using True Suc.prems(1,3,4) by (simp only: toxicClouds_stop)
    with True show ?thesis by auto
  next
    case False
    with Suc.prems have jk: "j < k" by simp
    then have jn: "j < numCards (field s)" "j < length (cards (field s))"
      using Suc.prems(1,2) by simp_all
    from Suc.prems(5) jk have cj:
      "hp (fieldCard s j) \<le> 0 \<or>
       (\<not> hasAttr (fieldCard s j) ATTR_IMMUNITY \<and> level a < hp (fieldCard s j) \<and>
        numAttr (fieldCard s j) < MAX_ATTR)" by simp
    define s1 where "s1 = setFieldCard s j (toxicHit a (fieldCard s j))"
    have step: "SimDemon_toxicClouds (Suc fuel) j a s = SimDemon_toxicClouds fuel (Suc j) a s1"
    proof (cases "hp (fieldCard s j) \<le> 0")
      case True
      then have "s1 = s" using jn by (simp add: s1_def toxicHit_def setFieldCard_def fieldCard_def)
      with True jn show ?thesis by (simp only: toxicClouds_skip)
    next
      case False
      with cj jn Suc.prems(2) show ?thesis
        unfolding s1_def by (intro toxicClouds_survivor) auto
    qed
    have other: "fieldCard s1 i = fieldCard s i" if "i \<noteq> j" for i
      using that by (simp add: s1_def fieldCard_setFieldCard)
    have atj: "fieldCard s1 j = toxicHit a (fieldCard s j)"
      using jn by (simp add: s1_def fieldCard_setFieldCard)
    have "\<exists>s'. SimDemon_toxicClouds fuel (Suc j) a s1 = Inr s' \<and>
           s' = s1\<lparr>field := (field s1)\<lparr>cards := cards (field s')\<rparr>\<rparr> \<and>
           length (cards (field s')) = length (cards (field s1)) \<and>
           (\<forall>i. i < Suc j \<or> k \<le> i \<longrightarrow> fieldCard s' i = fieldCard s1 i) \<and>
           (\<forall>i. Suc j \<le> i \<and> i < k \<longrightarrow> fieldCard s' i = toxicHit a (fieldCard s1 i))"
    proof (rule Suc.IH)
      show "k < numCards (field s1)" using Suc.prems(1) by (simp add: s1_def)
      show "numCards (field s1) \<le> length (cards (field s1))"
        using Suc.prems(2) by (simp add: s1_def)
      show "0 < hp (fieldCard s1 k)" "hasAttr (fieldCard s1 k) ATTR_IMMUNITY"
        using Suc.prems(3,4) jk other [of k] by simp_all
      show "\<forall>i. Suc j \<le> i \<and> i < k \<longrightarrow>
           hp (fieldCard s1 i) \<le> 0 \<or>
           (\<not> hasAttr (fieldCard s1 i) ATTR_IMMUNITY \<and> level a < hp (fieldCard s1 i) \<and>
            numAttr (fieldCard s1 i) < MAX_ATTR)"
        using Suc.prems(5) other by auto
      show "Suc j \<le> k" using jk by simp
      show "k - Suc j < fuel" using Suc.prems(7) jk by simp
    qed
    then obtain s' where
      r: "SimDemon_toxicClouds fuel (Suc j) a s1 = Inr s'" and
      e: "s' = s1\<lparr>field := (field s1)\<lparr>cards := cards (field s')\<rparr>\<rparr>" and
      l: "length (cards (field s')) = length (cards (field s1))" and
      u: "\<forall>i. i < Suc j \<or> k \<le> i \<longrightarrow> fieldCard s' i = fieldCard s1 i" and
      h: "\<forall>i. Suc j \<le> i \<and> i < k \<longrightarrow> fieldCard s' i = toxicHit a (fieldCard s1 i)"
      by blast
    have e': "s' = s\<lparr>field := (field s)\<lparr>cards := cards (field s')\<rparr>\<rparr>"
      by (subst e) (simp add: s1_def setFieldCard_def)
    have u': "\<forall>i. i < j \<or> k \<le> i \<longrightarrow> fieldCard s' i = fieldCard s i"
      using u other jk by auto
    have h': "\<forall>i. j \<le> i \<and> i < k \<longrightarrow> fieldCard s' i = toxicHit a (fieldCard s i)"
    proof (intro allI impI)
      fix i assume i: "j \<le> i \<and> i < k"
      show "fieldCard s' i = toxicHit a (fieldCard s i)"
      proof (cases "i = j")
        case True
        with u atj show ?thesis by simp
      next
        case False
        with i h other [of i] show ?thesis by simp
      qed
    qed
    from step r e' l u' h' show ?thesis by (simp add: s1_def)
  qed
qed

text \<open>
  Where no card dies: the loop of Toxic Clouds returns the state as it is when it meets a
  living card with Immunity, and a card without hit points is skipped. Hence, when the
  first living card with Immunity is at index \<open>k\<close> and every living card below it survives
  the hit, the cards at index \<open>k\<close> and above are unchanged, every living card below has
  lost the level and holds the Toxic Clouds attribute, the dead cards below are unchanged,
  and nothing but the cards of the field changes.
\<close>

lemma toxicClouds_stop_at_immunity:
  "(j1 < numCards (field s) \<and> 0 < hp (fieldCard s j1) \<and>
    hasAttr (fieldCard s j1) ATTR_IMMUNITY \<longrightarrow>
      SimDemon_toxicClouds (Suc fuel) j1 a s = Inr s) \<and>
   (j2 < numCards (field s) \<and> hp (fieldCard s j2) \<le> 0 \<longrightarrow>
      SimDemon_toxicClouds (Suc fuel) j2 a s = SimDemon_toxicClouds fuel (Suc j2) a s) \<and>
   (k < numCards (field s) \<and> numCards (field s) \<le> length (cards (field s)) \<and>
    0 < hp (fieldCard s k) \<and> hasAttr (fieldCard s k) ATTR_IMMUNITY \<and>
    (\<forall>i. i < k \<longrightarrow>
       hp (fieldCard s i) \<le> 0 \<or>
       (\<not> hasAttr (fieldCard s i) ATTR_IMMUNITY \<and> level a < hp (fieldCard s i) \<and>
        numAttr (fieldCard s i) < MAX_ATTR)) \<and>
    k < n \<longrightarrow>
      (\<exists>s'. SimDemon_toxicClouds n 0 a s = Inr s' \<and>
         s' = s\<lparr>field := (field s)\<lparr>cards := cards (field s')\<rparr>\<rparr> \<and>
         length (cards (field s')) = length (cards (field s)) \<and>
         (\<forall>i. k \<le> i \<longrightarrow> fieldCard s' i = fieldCard s i) \<and>
         (\<forall>i. i < k \<longrightarrow> fieldCard s' i = toxicHit a (fieldCard s i))))"
proof (intro conjI impI)
  assume "j1 < numCards (field s) \<and> 0 < hp (fieldCard s j1) \<and>
    hasAttr (fieldCard s j1) ATTR_IMMUNITY"
  then show "SimDemon_toxicClouds (Suc fuel) j1 a s = Inr s"
    by (simp only: toxicClouds_stop)
next
  assume "j2 < numCards (field s) \<and> hp (fieldCard s j2) \<le> 0"
  then show "SimDemon_toxicClouds (Suc fuel) j2 a s = SimDemon_toxicClouds fuel (Suc j2) a s"
    by (simp only: toxicClouds_skip)
next
  assume h: "k < numCards (field s) \<and> numCards (field s) \<le> length (cards (field s)) \<and>
    0 < hp (fieldCard s k) \<and> hasAttr (fieldCard s k) ATTR_IMMUNITY \<and>
    (\<forall>i. i < k \<longrightarrow>
       hp (fieldCard s i) \<le> 0 \<or>
       (\<not> hasAttr (fieldCard s i) ATTR_IMMUNITY \<and> level a < hp (fieldCard s i) \<and>
        numAttr (fieldCard s i) < MAX_ATTR)) \<and>
    k < n"
  then have low: "\<forall>i. 0 \<le> i \<and> i < k \<longrightarrow>
       hp (fieldCard s i) \<le> 0 \<or>
       (\<not> hasAttr (fieldCard s i) ATTR_IMMUNITY \<and> level a < hp (fieldCard s i) \<and>
        numAttr (fieldCard s i) < MAX_ATTR)"
    by simp
  from h have "k - 0 < n" by simp
  with h low have
    "\<exists>s'. SimDemon_toxicClouds n 0 a s = Inr s' \<and>
           s' = s\<lparr>field := (field s)\<lparr>cards := cards (field s')\<rparr>\<rparr> \<and>
           length (cards (field s')) = length (cards (field s)) \<and>
           (\<forall>i. i < 0 \<or> k \<le> i \<longrightarrow> fieldCard s' i = fieldCard s i) \<and>
           (\<forall>i. 0 \<le> i \<and> i < k \<longrightarrow> fieldCard s' i = toxicHit a (fieldCard s i))"
    by (intro toxicClouds_prefix) simp_all
  then show "\<exists>s'. SimDemon_toxicClouds n 0 a s = Inr s' \<and>
         s' = s\<lparr>field := (field s)\<lparr>cards := cards (field s')\<rparr>\<rparr> \<and>
         length (cards (field s')) = length (cards (field s)) \<and>
         (\<forall>i. k \<le> i \<longrightarrow> fieldCard s' i = fieldCard s i) \<and>
         (\<forall>i. i < k \<longrightarrow> fieldCard s' i = toxicHit a (fieldCard s i))"
    by simp
qed

lemma toxicClouds_stop_at_immunity_example:
  "SimDemon_toxicClouds (Suc 5) 2 \<lparr>type = ATTR_TOXIC_CLOUDS, level = 200\<rparr> cloudState
     = Inr cloudState \<and>
   SimDemon_toxicClouds (Suc 5) 1 \<lparr>type = ATTR_TOXIC_CLOUDS, level = 200\<rparr> cloudState
     = SimDemon_toxicClouds 5 2 \<lparr>type = ATTR_TOXIC_CLOUDS, level = 200\<rparr> cloudState \<and>
   (\<exists>s'. SimDemon_toxicClouds 5 0 \<lparr>type = ATTR_TOXIC_CLOUDS, level = 200\<rparr> cloudState = Inr s' \<and>
      fieldCard s' 3 = dodger \<and> fieldCard s' 2 = immune \<and> fieldCard s' 1 = DeadCard \<and>
      fieldCard s' 0 = dodger\<lparr>hp := 300,
        attr := attr dodger @ [\<lparr>type = ATTR_TOXIC_CLOUDS, level = 200\<rparr>]\<rparr>)"
proof -
  let ?a = "\<lparr>type = ATTR_TOXIC_CLOUDS, level = 200\<rparr>"
  have c: "fieldCard cloudState 0 = dodger" "fieldCard cloudState 1 = DeadCard"
    "fieldCard cloudState 2 = immune" "fieldCard cloudState 3 = dodger"
    by (simp_all add: cloudState_def fieldCard_def)
  have g: "2 < numCards (field cloudState)" "1 < numCards (field cloudState)"
    "numCards (field cloudState) \<le> length (cards (field cloudState))"
    by (simp_all add: cloudState_def)
  have i2: "0 < hp immune" "hasAttr immune ATTR_IMMUNITY" by code_simp+
  have d1: "hp DeadCard \<le> 0" by code_simp
  have d0: "\<not> hasAttr dodger ATTR_IMMUNITY" "level ?a < hp dodger" "numAttr dodger < MAX_ATTR"
    by code_simp+
  have low: "\<forall>i. i < 2 \<longrightarrow>
       hp (fieldCard cloudState i) \<le> 0 \<or>
       (\<not> hasAttr (fieldCard cloudState i) ATTR_IMMUNITY \<and>
        level ?a < hp (fieldCard cloudState i) \<and>
        numAttr (fieldCard cloudState i) < MAX_ATTR)"
  proof (intro allI impI)
    fix i :: nat
    assume "i < 2"
    then consider "i = 0" | "i = 1" by linarith
    then show "hp (fieldCard cloudState i) \<le> 0 \<or>
       (\<not> hasAttr (fieldCard cloudState i) ATTR_IMMUNITY \<and>
        level ?a < hp (fieldCard cloudState i) \<and>
        numAttr (fieldCard cloudState i) < MAX_ATTR)"
      using c d0 d1 by cases simp_all
  qed
  have t0: "toxicHit ?a dodger = dodger\<lparr>hp := 300, attr := attr dodger @ [?a]\<rparr>"
    by code_simp
  have t1: "toxicHit ?a DeadCard = DeadCard" by code_simp
  note inst = toxicClouds_stop_at_immunity
    [of 2 cloudState 5 ?a 1 2 5]
  have A: "SimDemon_toxicClouds (Suc 5) 2 ?a cloudState = Inr cloudState"
    by (rule inst [THEN conjunct1, THEN mp]) (use c g i2 in simp)
  have "SimDemon_toxicClouds (Suc 5) 1 ?a cloudState
     = SimDemon_toxicClouds 5 (Suc 1) ?a cloudState"
    by (rule inst [THEN conjunct2, THEN conjunct1, THEN mp]) (use c g d1 in simp)
  then have B: "SimDemon_toxicClouds (Suc 5) 1 ?a cloudState
     = SimDemon_toxicClouds 5 2 ?a cloudState"
    by (simp add: numeral_2_eq_2)
  have
    "\<exists>s'. SimDemon_toxicClouds 5 0 ?a cloudState = Inr s' \<and>
         s' = cloudState\<lparr>field := (field cloudState)\<lparr>cards := cards (field s')\<rparr>\<rparr> \<and>
         length (cards (field s')) = length (cards (field cloudState)) \<and>
         (\<forall>i. 2 \<le> i \<longrightarrow> fieldCard s' i = fieldCard cloudState i) \<and>
         (\<forall>i. i < 2 \<longrightarrow> fieldCard s' i = toxicHit ?a (fieldCard cloudState i))"
    by (rule inst [THEN conjunct2, THEN conjunct2, THEN mp]) (use low c g i2 in simp)
  then obtain s' where r: "SimDemon_toxicClouds 5 0 ?a cloudState = Inr s'"
    and hi: "\<forall>i. 2 \<le> i \<longrightarrow> fieldCard s' i = fieldCard cloudState i"
    and lo: "\<forall>i. i < 2 \<longrightarrow> fieldCard s' i = toxicHit ?a (fieldCard cloudState i)"
    by blast
  have "fieldCard s' 3 = dodger" "fieldCard s' 2 = immune" using hi c by simp_all
  moreover have "fieldCard s' 1 = DeadCard" using lo c t1 by simp
  moreover have "fieldCard s' 0 = dodger\<lparr>hp := 300, attr := attr dodger @ [?a]\<rparr>"
    using lo c t0 by simp
  ultimately show ?thesis using A B r by blast
qed

section \<open>Runes\<close>

lemma runes_useCharge:
  "runes (useCharge s i m) =
     (runes s)[i := charged (runes s ! i) (if m then 1 else usedThisRound (runes s ! i))]"
  by (simp add: useCharge_def setRune_def Let_def charged_def)

lemma runes_SimRegenerate [simp]: "runes (SimRegenerate s lvl) = runes s"
  by (simp add: SimRegenerate_def)

lemma runes_damageDemon [simp]: "runes (damageDemon s lvl) = runes s"
  by (simp add: damageDemon_def)

lemma activateBuffRune_runes:
  "activateBuffRune s i = Inr s' \<Longrightarrow> runes s' = (runes s)[i := charged (runes s ! i) 1]"
  by (auto simp: activateBuffRune_def addRuneBuffToField_def runes_useCharge
      bindE_def split: sum.splits)

lemma HandleRunes_activate_runes:
  assumes "HandleRunes_activate s i = Inr s'"
  shows "s' = s \<or>
         (chargesUsed (runes s ! i) < maxCharges (runes s ! i) \<and>
          (\<exists>u. runes s' = (runes s)[i := charged (runes s ! i) u]))"
proof (cases "chargesUsed (runes s ! i) \<ge> maxCharges (runes s ! i)")
  case True
  with assms show ?thesis by (simp add: HandleRunes_activate_def Let_def)
next
  case False
  have "s' = s \<or> (\<exists>u. runes s' = (runes s)[i := charged (runes s ! i) u])"
    using assms False unfolding HandleRunes_activate_def Let_def
    by (auto simp: runes_useCharge bindE_def
        split: if_splits sum.splits dest!: activateBuffRune_runes)
  with False show ?thesis by auto
qed

lemma stepped_refl [simp]: "stepped r r"
  by (simp add: stepped_def)

lemma stepped_charged: "chargesUsed r < maxCharges r \<Longrightarrow> stepped r (charged r u)"
  by (simp add: stepped_def charged_def)

lemma HandleRunes_activate_length:
  "HandleRunes_activate s i = Inr s' \<Longrightarrow> length (runes s') = length (runes s)"
  by (drule HandleRunes_activate_runes) auto

lemma HandleRunes_activate_nth:
  assumes "HandleRunes_activate s i = Inr s'"
  shows "(j \<noteq> i \<longrightarrow> runes s' ! j = runes s ! j) \<and> stepped (runes s ! i) (runes s' ! i)"
proof -
  from HandleRunes_activate_runes [OF assms] show ?thesis
  proof
    assume "s' = s"
    then show ?thesis by simp
  next
    assume "chargesUsed (runes s ! i) < maxCharges (runes s ! i) \<and>
          (\<exists>u. runes s' = (runes s)[i := charged (runes s ! i) u])"
    then obtain u where lt: "chargesUsed (runes s ! i) < maxCharges (runes s ! i)"
      and r: "runes s' = (runes s)[i := charged (runes s ! i) u]" by blast
    show ?thesis
    proof (cases "i < length (runes s)")
      case True
      with r lt show ?thesis by (simp add: stepped_charged)
    next
      case False
      with r show ?thesis by (simp add: list_update_beyond)
    qed
  qed
qed

lemma HandleRunes_activate_loop_runes:
  assumes "HandleRunes_activate_loop i s = Inr s'"
  shows "numRunes s' = numRunes s \<and> length (runes s') = length (runes s) \<and>
         (\<forall>j. j < i \<longrightarrow> runes s' ! j = runes s ! j) \<and>
         (\<forall>j. stepped (runes s ! j) (runes s' ! j))"
  using assms
proof (induction i s rule: HandleRunes_activate_loop.induct)
  case (1 i s)
  show ?case
  proof (cases "i < numRunes s")
    case False
    with "1.prems" have "s' = s" by (simp add: HandleRunes_activate_loop.simps)
    then show ?thesis by simp
  next
    case True
    with "1.prems" obtain s1 where a: "HandleRunes_activate s i = Inr s1"
      and l: "HandleRunes_activate_loop (Suc i) s1 = Inr s'"
      by (auto simp: HandleRunes_activate_loop.simps [of i s] bindE_def split: sum.splits)
    note IH = "1.IH" [OF True a l]
    from a have n1: "numRunes s1 = numRunes s" by (rule HandleRunes_activate_numRunes)
    from a have l1: "length (runes s1) = length (runes s)" by (rule HandleRunes_activate_length)
    have o: "runes s1 ! j = runes s ! j" if "j \<noteq> i" for j
      using HandleRunes_activate_nth [OF a, of j] that by simp
    have st: "stepped (runes s ! i) (runes s1 ! i)"
      using HandleRunes_activate_nth [OF a, of i] by simp
    have A: "\<forall>j. j < i \<longrightarrow> runes s' ! j = runes s ! j"
      using IH o by auto
    have B: "\<forall>j. stepped (runes s ! j) (runes s' ! j)"
    proof
      fix j
      show "stepped (runes s ! j) (runes s' ! j)"
      proof (cases "j = i")
        case True
        have "runes s' ! i = runes s1 ! i" using IH by simp
        with st True show ?thesis by simp
      next
        case False
        from IH have "stepped (runes s1 ! j) (runes s' ! j)" by blast
        with o [OF False] show ?thesis by simp
      qed
    qed
    from IH n1 l1 A B show ?thesis by simp
  qed
qed

lemma HandleRunes_deactivate_nth:
  "maxCharges (runes (HandleRunes_deactivate s i) ! j) = maxCharges (runes s ! j) \<and>
   chargesUsed (runes (HandleRunes_deactivate s i) ! j) = chargesUsed (runes s ! j) \<and>
   runeAttr (runes (HandleRunes_deactivate s i) ! j) = runeAttr (runes s ! j) \<and>
   length (runes (HandleRunes_deactivate s i)) = length (runes s)"
proof -
  have "runes (HandleRunes_deactivate s i) = runes s \<or>
        runes (HandleRunes_deactivate s i) = (runes s)[i := (runes s ! i)\<lparr>usedThisRound := 0\<rparr>]"
    by (simp add: HandleRunes_deactivate_def setRune_def removeRuneBuffFromField_def Let_def)
  then show ?thesis
  proof
    assume "runes (HandleRunes_deactivate s i) = runes s"
    then show ?thesis by simp
  next
    assume r: "runes (HandleRunes_deactivate s i) = (runes s)[i := (runes s ! i)\<lparr>usedThisRound := 0\<rparr>]"
    show ?thesis
    proof (cases "i < length (runes s)")
      case True
      with r show ?thesis by (cases "j = i") simp_all
    next
      case False
      with r show ?thesis by (simp add: list_update_beyond)
    qed
  qed
qed

lemma HandleRunes_deactivate_loop_nth:
  "maxCharges (runes (HandleRunes_deactivate_loop i s) ! j) = maxCharges (runes s ! j) \<and>
   chargesUsed (runes (HandleRunes_deactivate_loop i s) ! j) = chargesUsed (runes s ! j) \<and>
   length (runes (HandleRunes_deactivate_loop i s)) = length (runes s) \<and>
   numRunes (HandleRunes_deactivate_loop i s) = numRunes s"
proof (induction i s rule: HandleRunes_deactivate_loop.induct)
  case (1 i s)
  show ?case
  proof (cases "i < numRunes s")
    case True
    then have e: "HandleRunes_deactivate_loop i s =
        HandleRunes_deactivate_loop (Suc i) (HandleRunes_deactivate s i)"
      by (simp add: HandleRunes_deactivate_loop.simps [of i s])
    from "1.IH" [OF True] show ?thesis
      unfolding e by (simp add: HandleRunes_deactivate_nth HandleRunes_deactivate_numRunes)
  next
    case False
    then show ?thesis by (simp add: HandleRunes_deactivate_loop.simps [of i s])
  qed
qed

lemma HandleRunes_deactivate_loop_idle:
  "(\<forall>j. i \<le> j \<and> j < numRunes s \<longrightarrow> usedThisRound (runes s ! j) = 0) \<Longrightarrow>
   HandleRunes_deactivate_loop i s = s"
proof (induction i s rule: HandleRunes_deactivate_loop.induct)
  case (1 i s)
  show ?case
  proof (cases "i < numRunes s")
    case True
    with "1.prems" have u: "usedThisRound (runes s ! i) = 0" by simp
    then have d: "HandleRunes_deactivate s i = s" by (simp add: HandleRunes_deactivate_def)
    have "HandleRunes_deactivate_loop (Suc i) (HandleRunes_deactivate s i) = HandleRunes_deactivate s i"
      by (rule "1.IH" [OF True]) (use "1.prems" d in simp)
    with True d show ?thesis by (simp add: HandleRunes_deactivate_loop.simps [of i s])
  next
    case False
    then show ?thesis by (simp add: HandleRunes_deactivate_loop.simps [of i s])
  qed
qed

lemma HandleRunes_activate_loop_idle:
  "(\<forall>j. i \<le> j \<and> j < numRunes s \<longrightarrow> maxCharges (runes s ! j) \<le> chargesUsed (runes s ! j)) \<Longrightarrow>
   HandleRunes_activate_loop i s = Inr s"
proof (induction i s rule: HandleRunes_activate_loop.induct)
  case (1 i s)
  show ?case
  proof (cases "i < numRunes s")
    case True
    with "1.prems" have u: "maxCharges (runes s ! i) \<le> chargesUsed (runes s ! i)" by simp
    then have d: "HandleRunes_activate s i = Inr s" by (simp add: HandleRunes_activate_def Let_def)
    have "HandleRunes_activate_loop (Suc i) s = Inr s"
      by (rule "1.IH" [OF True d]) (use "1.prems" in simp)
    with True d show ?thesis by (simp add: HandleRunes_activate_loop.simps [of i s] bindE_def)
  next
    case False
    then show ?thesis by (simp add: HandleRunes_activate_loop.simps [of i s])
  qed
qed

lemma HandleRunes_deactivate_runes:
  "runes (HandleRunes_deactivate s i) =
     (if usedThisRound (runes s ! i) = 0 then runes s
      else (runes s)[i := (runes s ! i)\<lparr>usedThisRound := 0\<rparr>])"
  by (simp add: HandleRunes_deactivate_def setRune_def removeRuneBuffFromField_def Let_def)

lemma HandleRunes_deactivate_loop_rune:
  "runes (HandleRunes_deactivate_loop k s) ! i =
     (if k \<le> i \<and> i < numRunes s \<and> i < length (runes s) \<and> usedThisRound (runes s ! i) \<noteq> 0
      then (runes s ! i)\<lparr>usedThisRound := 0\<rparr> else runes s ! i)"
proof (induction k s rule: HandleRunes_deactivate_loop.induct)
  case (1 k s)
  show ?case
  proof (cases "k < numRunes s")
    case False
    then show ?thesis by (simp add: HandleRunes_deactivate_loop.simps [of k s])
  next
    case True
    define s1 where "s1 = HandleRunes_deactivate s k"
    have e: "HandleRunes_deactivate_loop k s = HandleRunes_deactivate_loop (Suc k) s1"
      using True by (simp add: HandleRunes_deactivate_loop.simps [of k s] s1_def)
    have n1: "numRunes s1 = numRunes s" "length (runes s1) = length (runes s)"
      by (simp_all add: s1_def HandleRunes_deactivate_numRunes HandleRunes_deactivate_runes)
    have r1: "runes s1 ! i =
        (if i = k \<and> k < length (runes s) \<and> usedThisRound (runes s ! k) \<noteq> 0
         then (runes s ! k)\<lparr>usedThisRound := 0\<rparr> else runes s ! i)"
      by (cases "k < length (runes s)")
         (auto simp: s1_def HandleRunes_deactivate_runes list_update_beyond)
    from "1.IH" [OF True] have
      "runes (HandleRunes_deactivate_loop (Suc k) s1) ! i =
        (if Suc k \<le> i \<and> i < numRunes s1 \<and> i < length (runes s1) \<and>
            usedThisRound (runes s1 ! i) \<noteq> 0
         then (runes s1 ! i)\<lparr>usedThisRound := 0\<rparr> else runes s1 ! i)"
      by (simp add: s1_def)
    with e n1 r1 True show ?thesis by (cases "i = k") auto
  qed
qed

lemma HandleRunes_activate_loop_exhausted:
  assumes "HandleRunes_activate_loop k s = Inr s'"
    and "maxCharges (runes s ! i) \<le> chargesUsed (runes s ! i)"
  shows "runes s' ! i = runes s ! i"
  using assms
proof (induction k s rule: HandleRunes_activate_loop.induct)
  case (1 k s)
  show ?case
  proof (cases "k < numRunes s")
    case False
    with "1.prems" show ?thesis by (simp add: HandleRunes_activate_loop.simps [of k s])
  next
    case True
    with "1.prems" obtain s1 where a: "HandleRunes_activate s k = Inr s1"
      and l: "HandleRunes_activate_loop (Suc k) s1 = Inr s'"
      by (auto simp: HandleRunes_activate_loop.simps [of k s] bindE_Inr_iff)
    have r1: "runes s1 ! i = runes s ! i"
    proof (cases "i = k")
      case False
      with HandleRunes_activate_nth [OF a, of i] show ?thesis by simp
    next
      case ik: True
      with "1.prems"(2) a have "s1 = s" by (simp add: HandleRunes_activate_def Let_def)
      then show ?thesis by simp
    qed
    from "1.IH" [OF True a l] r1 "1.prems"(2) show ?thesis by simp
  qed
qed




section \<open>Guard\<close>

lemma bindE_Inr [simp]: "bindE (Inr x) f = f x"
  by (simp add: bindE_def)

lemma bindE_Inl [simp]: "bindE (Inl e) f = Inl e"
  by (simp add: bindE_def)

lemma hasAttr_iff: "hasAttr c t \<longleftrightarrow> (\<exists>a \<in> set (attr c). type a = t)"
  by (simp add: hasAttr_def HasAttr_def HasAttr_loop_None)

lemma hasAttr_RemoveAttr_other:
  assumes "t' \<noteq> t"
  shows "hasAttr (RemoveAttr c t lvl) t' = hasAttr c t'"
proof (cases "lvl = -1")
  case True
  have "attr (RemoveAttr c t (-1)) = filter (\<lambda>a. type a \<noteq> t) (attr c)"
    using RemoveAttr_loop_all [of 0 "attr c" t] by (simp add: RemoveAttr_def)
  with True assms show ?thesis by (auto simp: hasAttr_iff)
next
  case False
  have r: "attr (RemoveAttr c t lvl) = remove1 \<lparr>type = t, level = lvl\<rparr> (attr c)"
    using RemoveAttr_loop_one [OF False, of 0 "attr c" t] by (simp add: RemoveAttr_def)
  have "a \<in> set (remove1 \<lparr>type = t, level = lvl\<rparr> (attr c)) \<longleftrightarrow> a \<in> set (attr c)"
    if "type a = t'" for a
  proof -
    from that assms have "a \<noteq> \<lparr>type = t, level = lvl\<rparr>" by auto
    then show ?thesis by (rule in_set_remove1)
  qed
  then show ?thesis unfolding hasAttr_iff r by blast
qed

lemma hasAttr_RemoveBuffFromField_card:
  "t' \<noteq> buff \<Longrightarrow> hasAttr (RemoveBuffFromField_card c2 buff lvl) t' = hasAttr c2 t'"
  using hasAttr_RemoveAttr_other [of t' buff c2 lvl]
  by (simp add: RemoveBuffFromField_card_def Let_def hasAttr_iff)

lemma RemoveBuffFromField_frame:
  "numCards (field (RemoveBuffFromField s c buff lvl)) = numCards (field s) \<and>
   length (cards (field (RemoveBuffFromField s c buff lvl))) = length (cards (field s)) \<and>
   playerHp (RemoveBuffFromField s c buff lvl) = playerHp s \<and>
   grave (RemoveBuffFromField s c buff lvl) = grave s \<and>
   (c < length (cards (field s)) \<longrightarrow>
      fieldCard (RemoveBuffFromField s c buff lvl) c = fieldCard s c) \<and>
   (\<forall>j. j < length (cards (field s)) \<and> t' \<noteq> buff \<longrightarrow>
      hasAttr (fieldCard (RemoveBuffFromField s c buff lvl) j) t' = hasAttr (fieldCard s j) t')"
  using RemoveBuffFromField_loop_nth [of 0 c buff lvl "field s"]
  by (simp add: RemoveBuffFromField_def fieldCard_def hasAttr_RemoveBuffFromField_card)

lemma SimReincarnate_loop_frame:
  "SimReincarnate_loop i lvl s = Inr s' \<Longrightarrow>
   field s' = field s \<and> playerHp s' = playerHp s \<and>
   length (cards (grave s')) = length (cards (grave s)) \<and>
   numCards (grave s') \<le> numCards (grave s)"
proof (induction i lvl s rule: SimReincarnate_loop.induct)
  case (1 i lvl s)
  show ?case
  proof (cases "int i < lvl \<and> numCards (grave s) \<noteq> 0")
    case False
    with "1.prems" have "s' = s"
      by (subst (asm) SimReincarnate_loop.simps) (auto split: if_splits)
    then show ?thesis by simp
  next
    case True
    then have a: "int i < lvl" and b: "numCards (grave s) \<noteq> 0" by simp_all
    from "1.prems" a b obtain d where
      d: "AddCardToSet (deck s) (cards (grave s) ! 0) = Inr d" and
      r: "SimReincarnate_loop (Suc i) lvl (s\<lparr>grave := RemoveCardFromSet (grave s) 0, deck := d\<rparr>) = Inr s'"
      by (subst (asm) SimReincarnate_loop.simps) (auto simp: bindE_Inr_iff Let_def)
    from "1.IH" [OF a b refl refl d r] show ?thesis
      by (auto simp: RemoveCardFromSet_def)
  qed
qed

lemma SimReincarnate_loop_fuel: "SimReincarnate_loop i lvl s \<noteq> Inl OutOfFuel"
proof (induction i lvl s rule: SimReincarnate_loop.induct)
  case (1 i lvl s)
  show ?case
  proof (cases "int i < lvl \<and> numCards (grave s) \<noteq> 0")
    case False
    then show ?thesis
      by (subst SimReincarnate_loop.simps) auto
  next
    case True
    then have a: "int i < lvl" and b: "numCards (grave s) \<noteq> 0" by simp_all
    show ?thesis
    proof (cases "AddCardToSet (deck s) (cards (grave s) ! 0)")
      case (Inl e)
      then have "e = TooManyCards" by (auto simp: AddCardToSet_def split: if_splits)
      with Inl a b show ?thesis
        by (subst SimReincarnate_loop.simps) (simp add: bindE_def Let_def)
    next
      case (Inr d)
      from "1.IH" [OF a b refl refl Inr] Inr a b show ?thesis
        by (subst SimReincarnate_loop.simps) (simp add: bindE_def Let_def)
    qed
  qed
qed

lemma RemoveCard_attr_frame:
  assumes "RemoveCard_attr s c a sg = Inr s'"
  shows "numCards (field s') = numCards (field s) \<and>
         length (cards (field s')) = length (cards (field s)) \<and>
         length (cards (grave s')) = length (cards (grave s)) \<and>
         numCards (grave s') \<le> numCards (grave s) \<and>
         (type a \<noteq> ATTR_D_PRAYER \<longrightarrow> playerHp s' = playerHp s) \<and>
         (c < length (cards (field s)) \<longrightarrow> fieldCard s' c = fieldCard s c) \<and>
         (\<forall>j. j < length (cards (field s)) \<longrightarrow>
            hasAttr (fieldCard s' j) ATTR_GUARD = hasAttr (fieldCard s j) ATTR_GUARD)"
    (is "?P s'")
proof -
  have rb: "?P (RemoveBuffFromField s c buff (level a))" if "ATTR_GUARD \<noteq> buff" for buff
    using RemoveBuffFromField_frame [of s c buff "level a" ATTR_GUARD] that by simp
  have pr: "?P (SimPrayer s (level a))" if "type a = ATTR_D_PRAYER"
    using that by (simp add: SimPrayer_def fieldCard_def)
  have re: "?P s'" if "SimReincarnate s (level a) = Inr s'"
    using SimReincarnate_loop_frame [OF that [unfolded SimReincarnate_def]]
    by (simp add: fieldCard_def)
  have same: "?P s" by simp
  have "s' = RemoveBuffFromField s c ATTR_TUNDRA_HP_BUFF (level a) \<or>
         s' = RemoveBuffFromField s c ATTR_FOREST_HP_BUFF (level a) \<or>
         s' = RemoveBuffFromField s c ATTR_MTN_HP_BUFF (level a) \<or>
         s' = RemoveBuffFromField s c ATTR_SWAMP_HP_BUFF (level a) \<or>
         s' = RemoveBuffFromField s c ATTR_TUNDRA_ATK_BUFF (level a) \<or>
         s' = RemoveBuffFromField s c ATTR_FOREST_ATK_BUFF (level a) \<or>
         s' = RemoveBuffFromField s c ATTR_MTN_ATK_BUFF (level a) \<or>
         s' = RemoveBuffFromField s c ATTR_SWAMP_ATK_BUFF (level a) \<or>
         (type a = ATTR_D_PRAYER \<and> s' = SimPrayer s (level a)) \<or>
         SimReincarnate s (level a) = Inr s' \<or> s' = s"
    using assms unfolding RemoveCard_attr_def by (simp split: if_splits)
  then consider
    "s' = RemoveBuffFromField s c ATTR_TUNDRA_HP_BUFF (level a)"
    | "s' = RemoveBuffFromField s c ATTR_FOREST_HP_BUFF (level a)"
    | "s' = RemoveBuffFromField s c ATTR_MTN_HP_BUFF (level a)"
    | "s' = RemoveBuffFromField s c ATTR_SWAMP_HP_BUFF (level a)"
    | "s' = RemoveBuffFromField s c ATTR_TUNDRA_ATK_BUFF (level a)"
    | "s' = RemoveBuffFromField s c ATTR_FOREST_ATK_BUFF (level a)"
    | "s' = RemoveBuffFromField s c ATTR_MTN_ATK_BUFF (level a)"
    | "s' = RemoveBuffFromField s c ATTR_SWAMP_ATK_BUFF (level a)"
    | "type a = ATTR_D_PRAYER" "s' = SimPrayer s (level a)"
    | "SimReincarnate s (level a) = Inr s'"
    | "s' = s"
    by blast
  then show ?thesis
  proof cases
    case 1 then show ?thesis using rb [of ATTR_TUNDRA_HP_BUFF] by simp
  next
    case 2 then show ?thesis using rb [of ATTR_FOREST_HP_BUFF] by simp
  next
    case 3 then show ?thesis using rb [of ATTR_MTN_HP_BUFF] by simp
  next
    case 4 then show ?thesis using rb [of ATTR_SWAMP_HP_BUFF] by simp
  next
    case 5 then show ?thesis using rb [of ATTR_TUNDRA_ATK_BUFF] by simp
  next
    case 6 then show ?thesis using rb [of ATTR_FOREST_ATK_BUFF] by simp
  next
    case 7 then show ?thesis using rb [of ATTR_MTN_ATK_BUFF] by simp
  next
    case 8 then show ?thesis using rb [of ATTR_SWAMP_ATK_BUFF] by simp
  next
    case 9 then show ?thesis using pr by simp
  next
    case 10 then show ?thesis by (rule re)
  next
    case 11 then show ?thesis using same by simp
  qed
qed

lemma RemoveCard_attr_fuel: "RemoveCard_attr s c a sg \<noteq> Inl OutOfFuel"
  by (simp add: RemoveCard_attr_def SimReincarnate_def SimReincarnate_loop_fuel)

lemma RemoveCard_loop_frame:
  assumes "RemoveCard_loop fuel i s c sg = Inr s'"
    and "c < length (cards (field s))"
    and "\<not> hasAttr (fieldCard s c) ATTR_D_REANIMATE"
  shows "numCards (field s') = numCards (field s) \<and>
         length (cards (field s')) = length (cards (field s)) \<and>
         length (cards (grave s')) = length (cards (grave s)) \<and>
         numCards (grave s') \<le> numCards (grave s) \<and>
         (\<not> hasAttr (fieldCard s c) ATTR_D_PRAYER \<longrightarrow> playerHp s' = playerHp s) \<and>
         fieldCard s' c = fieldCard s c \<and>
         (\<forall>j. j < length (cards (field s)) \<longrightarrow>
            hasAttr (fieldCard s' j) ATTR_GUARD = hasAttr (fieldCard s j) ATTR_GUARD)"
  using assms
proof (induction fuel arbitrary: i s)
  case 0
  then show ?case by simp
next
  case (Suc fuel)
  show ?case
  proof (cases "i < numAttr (fieldCard s c)")
    case False
    with Suc.prems(1) have "s' = s" by simp
    then show ?thesis by simp
  next
    case True
    define a where "a = attr (fieldCard s c) ! i"
    from True have mem: "a \<in> set (attr (fieldCard s c))" by (simp add: a_def)
    with Suc.prems(3) have nr: "type a \<noteq> ATTR_D_REANIMATE" by (auto simp: hasAttr_iff)
    from Suc.prems(1) True nr obtain s1 where
      a1: "RemoveCard_attr s c a sg = Inr s1" and
      l: "RemoveCard_loop fuel (Suc i) s1 c sg = Inr s'"
      by (auto simp: bindE_Inr_iff a_def Let_def)
    note F = RemoveCard_attr_frame [OF a1]
    from F Suc.prems(2) have c1: "fieldCard s1 c = fieldCard s c" by simp
    have IH: "numCards (field s') = numCards (field s1) \<and>
         length (cards (field s')) = length (cards (field s1)) \<and>
         length (cards (grave s')) = length (cards (grave s1)) \<and>
         numCards (grave s') \<le> numCards (grave s1) \<and>
         (\<not> hasAttr (fieldCard s1 c) ATTR_D_PRAYER \<longrightarrow> playerHp s' = playerHp s1) \<and>
         fieldCard s' c = fieldCard s1 c \<and>
         (\<forall>j. j < length (cards (field s1)) \<longrightarrow>
            hasAttr (fieldCard s' j) ATTR_GUARD = hasAttr (fieldCard s1 j) ATTR_GUARD)"
      by (rule Suc.IH [OF l]) (use F Suc.prems c1 in simp_all)
    have p: "playerHp s1 = playerHp s" if "\<not> hasAttr (fieldCard s c) ATTR_D_PRAYER"
    proof -
      from that mem have "type a \<noteq> ATTR_D_PRAYER" by (auto simp: hasAttr_iff)
      with F show ?thesis by simp
    qed
    from IH F c1 p show ?thesis by auto
  qed
qed

lemma RemoveCard_loop_fuel:
  assumes "numAttr (fieldCard s c) - i < fuel"
    and "c < length (cards (field s))"
    and "\<not> hasAttr (fieldCard s c) ATTR_D_REANIMATE"
  shows "RemoveCard_loop fuel i s c sg \<noteq> Inl OutOfFuel"
  using assms
proof (induction fuel arbitrary: i s)
  case 0
  then show ?case by simp
next
  case (Suc fuel)
  show ?case
  proof (cases "i < numAttr (fieldCard s c)")
    case False
    then show ?thesis by simp
  next
    case True
    define a where "a = attr (fieldCard s c) ! i"
    from True have mem: "a \<in> set (attr (fieldCard s c))" by (simp add: a_def)
    with Suc.prems(3) have nr: "type a \<noteq> ATTR_D_REANIMATE" by (auto simp: hasAttr_iff)
    have e: "RemoveCard_loop (Suc fuel) i s c sg =
        bindE (RemoveCard_attr s c a sg) (\<lambda>s1. RemoveCard_loop fuel (Suc i) s1 c sg)"
      using True nr by (simp add: a_def Let_def)
    show ?thesis
    proof (cases "RemoveCard_attr s c a sg")
      case (Inl err)
      with RemoveCard_attr_fuel [of s c a sg] e show ?thesis by (simp add: bindE_def)
    next
      case (Inr s1)
      note F = RemoveCard_attr_frame [OF Inr]
      from F Suc.prems(2) have c1: "fieldCard s1 c = fieldCard s c" by simp
      have "RemoveCard_loop fuel (Suc i) s1 c sg \<noteq> Inl OutOfFuel"
        by (rule Suc.IH) (use F Suc.prems c1 True in simp_all)
      with Inr e show ?thesis by (simp add: bindE_def)
    qed
  qed
qed

lemma Rnd_frame:
  "field (snd (Rnd s n)) = field s \<and> playerHp (snd (Rnd s n)) = playerHp s \<and>
   grave (snd (Rnd s n)) = grave s \<and> hand (snd (Rnd s n)) = hand s \<and>
   deck (snd (Rnd s n)) = deck s"
  by (simp add: Rnd_def myRand_def Let_def split_def)

lemma resurrect_frame:
  "field (snd (resurrect s lvl d)) = field s \<and> playerHp (snd (resurrect s lvl d)) = playerHp s \<and>
   grave (snd (resurrect s lvl d)) = grave s"
  using Rnd_frame [of s 100] by (simp add: resurrect_def split_def Let_def)

lemma addToDestination_frame:
  assumes "addToDestination s d c = Inr s'"
  shows "field s' = field s \<and> playerHp s' = playerHp s \<and>
         (d = ToGrave \<longrightarrow>
            grave s' = (grave s)\<lparr>cards := (cards (grave s))[numCards (grave s) := c],
                                  numCards := numCards (grave s) + 1\<rparr>)"
  using assms
  by (cases d) (auto simp: addToDestination_def AddCardToSet_def bindE_Inr_iff split: if_splits)

lemma addToDestination_fuel: "addToDestination s d c \<noteq> Inl OutOfFuel"
  by (cases d) (auto simp: addToDestination_def AddCardToSet_def bindE_def split: if_splits)

lemma RemoveCard_move_frame:
  assumes "RemoveCard_move s c True = Inr s'" and "c < length (cards (field s))"
  shows "fieldCard s' c = DeadCard \<and>
         (\<forall>j. j \<noteq> c \<longrightarrow> fieldCard s' j = fieldCard s j) \<and>
         numCards (field s') = numCards (field s) \<and>
         length (cards (field s')) = length (cards (field s)) \<and>
         playerHp s' = playerHp s \<and>
         (\<not> hasAttr (fieldCard s c) ATTR_DIRT \<and> \<not> hasAttr (fieldCard s c) ATTR_RESURRECTION \<and>
          numCards (grave s) < length (cards (grave s)) \<longrightarrow>
            numCards (grave s') = Suc (numCards (grave s)) \<and>
            cards (grave s') ! numCards (grave s) = InitCard (fieldCard s c))"
proof -
  define p1 where "p1 = (case HasAttr (fieldCard s c) ATTR_DIRT of
                           Some lvl \<Rightarrow> resurrect s lvl ToGrave | None \<Rightarrow> (ToGrave, s))"
  define p2 where "p2 = (case HasAttr (fieldCard (snd p1) c) ATTR_RESURRECTION of
                           Some lvl \<Rightarrow> resurrect (snd p1) lvl (fst p1) | None \<Rightarrow> p1)"
  have f1: "field (snd p1) = field s \<and> playerHp (snd p1) = playerHp s \<and> grave (snd p1) = grave s"
    using resurrect_frame [of s _ ToGrave] by (simp add: p1_def split: option.splits)
  have f2: "field (snd p2) = field s \<and> playerHp (snd p2) = playerHp s \<and> grave (snd p2) = grave s"
    using resurrect_frame [of "snd p1" _ "fst p1"] f1 by (simp add: p2_def split: option.splits)
  have c1: "fieldCard (snd p1) c = fieldCard s c" using f1 by (simp add: fieldCard_def)
  have d2: "fst p2 = ToGrave"
    if "\<not> hasAttr (fieldCard s c) ATTR_DIRT" "\<not> hasAttr (fieldCard s c) ATTR_RESURRECTION"
    using that c1 by (simp add: p1_def p2_def hasAttr_def)
  from assms(1) obtain s3 where
    a: "addToDestination (snd p2) (fst p2) (InitCard (fieldCard s c)) = Inr s3" and
    e: "s' = setFieldCard s3 c DeadCard"
    unfolding RemoveCard_move_def p1_def p2_def
    by (auto simp: bindE_Inr_iff Let_def split_def split: option.splits)
  note A = addToDestination_frame [OF a]
  from A f2 have fs: "field s3 = field s" "playerHp s3 = playerHp s" by simp_all
  have g: "numCards (grave s') = Suc (numCards (grave s)) \<and>
           cards (grave s') ! numCards (grave s) = InitCard (fieldCard s c)"
    if "\<not> hasAttr (fieldCard s c) ATTR_DIRT" "\<not> hasAttr (fieldCard s c) ATTR_RESURRECTION"
       "numCards (grave s) < length (cards (grave s))"
  proof -
    from d2 [OF that(1,2)] A f2 have
      "grave s3 = (grave s)\<lparr>cards := (cards (grave s))[numCards (grave s) := InitCard (fieldCard s c)],
                              numCards := numCards (grave s) + 1\<rparr>" by simp
    with that(3) e show ?thesis by (simp add: setFieldCard_def)
  qed
  from e fs assms(2) g show ?thesis
    by (auto simp: fieldCard_def setFieldCard_def)
qed

lemma RemoveCard_move_fuel: "RemoveCard_move s c True \<noteq> Inl OutOfFuel"
proof -
  have "bindE (addToDestination s2 d2 x) (\<lambda>s3. Inr (setFieldCard s3 c DeadCard)) \<noteq> Inl OutOfFuel"
    for s2 d2 x
    using addToDestination_fuel [of s2 d2 x]
    by (cases "addToDestination s2 d2 x") (simp_all add: bindE_def)
  then show ?thesis
    by (simp add: RemoveCard_move_def Let_def split_def)
qed

lemma RemoveCard_mark_Inr:
  "RemoveCard_mark s c = Inr s1 \<Longrightarrow>
   s1 = setFieldCard s c ((fieldCard s c)\<lparr>hp := 0, attr := attr (fieldCard s c) @ [DeadAttr]\<rparr>)"
  by (auto simp: RemoveCard_mark_def AddAttr_def bindE_Inr_iff split: if_splits)

lemma RemoveCard_mark_fuel: "RemoveCard_mark s c \<noteq> Inl OutOfFuel"
  by (simp add: RemoveCard_mark_def AddAttr_def bindE_def)

lemma InitCard_marked [simp]: "InitCard (c\<lparr>hp := h, attr := as\<rparr>) = InitCard c"
  by (simp add: InitCard_def)

lemma hasAttr_marked:
  "t \<noteq> ATTR_DEAD \<Longrightarrow> hasAttr (c\<lparr>hp := h, attr := attr c @ [DeadAttr]\<rparr>) t = hasAttr c t"
  by (auto simp: hasAttr_iff DeadAttr_def)

lemma RemoveCard_frame:
  assumes "RemoveCard fuel s c True = Inr s'"
    and "c < length (cards (field s))"
    and "\<not> hasAttr (fieldCard s c) ATTR_D_REANIMATE"
  shows "fieldCard s' c = DeadCard \<and>
         numCards (field s') = numCards (field s) \<and>
         length (cards (field s')) = length (cards (field s)) \<and>
         (\<forall>j. j < length (cards (field s)) \<and> j \<noteq> c \<longrightarrow>
            hasAttr (fieldCard s' j) ATTR_GUARD = hasAttr (fieldCard s j) ATTR_GUARD) \<and>
         (\<not> hasAttr (fieldCard s c) ATTR_D_PRAYER \<longrightarrow> playerHp s' = playerHp s) \<and>
         (\<not> hasAttr (fieldCard s c) ATTR_DIRT \<and> \<not> hasAttr (fieldCard s c) ATTR_RESURRECTION \<and>
          numCards (grave s) < length (cards (grave s)) \<longrightarrow>
            0 < numCards (grave s') \<and>
            cards (grave s') ! (numCards (grave s') - 1) = InitCard (fieldCard s c))"
proof (cases fuel)
  case 0
  with assms(1) show ?thesis by simp
next
  case (Suc f)
  define marked where
    "marked = (fieldCard s c)\<lparr>hp := 0, attr := attr (fieldCard s c) @ [DeadAttr]\<rparr>"
  define s1 where "s1 = setFieldCard s c marked"
  from assms(1) Suc obtain s0 s2 where
    m: "RemoveCard_mark s c = Inr s0" and
    l: "RemoveCard_loop f 0 s0 c True = Inr s2" and
    v: "RemoveCard_move s2 c True = Inr s'"
    by (auto simp: bindE_Inr_iff)
  from RemoveCard_mark_Inr [OF m] have s0: "s0 = s1" by (simp add: s1_def marked_def)
  have c1: "fieldCard s1 c = marked" using assms(2) by (simp add: s1_def fieldCard_setFieldCard)
  have o1: "fieldCard s1 j = fieldCard s j" if "j \<noteq> c" for j
    using that by (simp add: s1_def fieldCard_setFieldCard)
  have len1: "length (cards (field s1)) = length (cards (field s))"
    "numCards (field s1) = numCards (field s)" "playerHp s1 = playerHp s" "grave s1 = grave s"
    by (simp_all add: s1_def setFieldCard_def)
  have hm: "hasAttr marked t = hasAttr (fieldCard s c) t" if "t \<noteq> ATTR_DEAD" for t
    unfolding marked_def using that by (rule hasAttr_marked)
  have L: "numCards (field s2) = numCards (field s1) \<and>
         length (cards (field s2)) = length (cards (field s1)) \<and>
         length (cards (grave s2)) = length (cards (grave s1)) \<and>
         numCards (grave s2) \<le> numCards (grave s1) \<and>
         (\<not> hasAttr (fieldCard s1 c) ATTR_D_PRAYER \<longrightarrow> playerHp s2 = playerHp s1) \<and>
         fieldCard s2 c = fieldCard s1 c \<and>
         (\<forall>j. j < length (cards (field s1)) \<longrightarrow>
            hasAttr (fieldCard s2 j) ATTR_GUARD = hasAttr (fieldCard s1 j) ATTR_GUARD)"
    by (rule RemoveCard_loop_frame [OF l [unfolded s0]])
       (use assms(2,3) len1 c1 hm [of ATTR_D_REANIMATE] in simp_all)
  have M: "fieldCard s' c = DeadCard \<and>
         (\<forall>j. j \<noteq> c \<longrightarrow> fieldCard s' j = fieldCard s2 j) \<and>
         numCards (field s') = numCards (field s2) \<and>
         length (cards (field s')) = length (cards (field s2)) \<and>
         playerHp s' = playerHp s2 \<and>
         (\<not> hasAttr (fieldCard s2 c) ATTR_DIRT \<and> \<not> hasAttr (fieldCard s2 c) ATTR_RESURRECTION \<and>
          numCards (grave s2) < length (cards (grave s2)) \<longrightarrow>
            numCards (grave s') = Suc (numCards (grave s2)) \<and>
            cards (grave s') ! numCards (grave s2) = InitCard (fieldCard s2 c))"
    by (rule RemoveCard_move_frame [OF v]) (use L len1 assms(2) in simp)
  have c2: "fieldCard s2 c = marked" using L c1 by simp
  have A: "\<forall>j. j < length (cards (field s)) \<and> j \<noteq> c \<longrightarrow>
            hasAttr (fieldCard s' j) ATTR_GUARD = hasAttr (fieldCard s j) ATTR_GUARD"
    using M L len1 o1 by auto
  have B: "playerHp s' = playerHp s" if "\<not> hasAttr (fieldCard s c) ATTR_D_PRAYER"
    using that M L len1 c1 hm [of ATTR_D_PRAYER] by simp
  have C: "0 < numCards (grave s') \<and>
           cards (grave s') ! (numCards (grave s') - 1) = InitCard (fieldCard s c)"
    if "\<not> hasAttr (fieldCard s c) ATTR_DIRT" "\<not> hasAttr (fieldCard s c) ATTR_RESURRECTION"
       "numCards (grave s) < length (cards (grave s))"
  proof -
    from that L len1 have "numCards (grave s2) < length (cards (grave s2))" by simp
    with that(1,2) M c2 hm [of ATTR_DIRT] hm [of ATTR_RESURRECTION]
    have "numCards (grave s') = Suc (numCards (grave s2)) \<and>
          cards (grave s') ! numCards (grave s2) = InitCard marked" by simp
    then show ?thesis by (simp add: marked_def)
  qed
  from M L len1 A B C show ?thesis by simp
qed

lemma RemoveCard_fuel:
  assumes "numAttr (fieldCard s c) + 3 \<le> fuel"
    and "c < length (cards (field s))"
    and "\<not> hasAttr (fieldCard s c) ATTR_D_REANIMATE"
  shows "RemoveCard fuel s c True \<noteq> Inl OutOfFuel"
proof -
  from assms(1) obtain f where f: "fuel = Suc f" and fb: "numAttr (fieldCard s c) + 2 \<le> f"
    by (cases fuel) simp_all
  show ?thesis
  proof (cases "RemoveCard_mark s c")
    case (Inl e)
    with RemoveCard_mark_fuel [of s c] f show ?thesis by (simp add: bindE_def)
  next
    case (Inr s1)
    from RemoveCard_mark_Inr [OF Inr] have
      s1: "s1 = setFieldCard s c ((fieldCard s c)\<lparr>hp := 0, attr := attr (fieldCard s c) @ [DeadAttr]\<rparr>)" .
    have c1: "fieldCard s1 c = (fieldCard s c)\<lparr>hp := 0, attr := attr (fieldCard s c) @ [DeadAttr]\<rparr>"
      using assms(2) by (simp add: s1 fieldCard_setFieldCard)
    have nl: "RemoveCard_loop f 0 s1 c True \<noteq> Inl OutOfFuel"
    proof (rule RemoveCard_loop_fuel)
      show "numAttr (fieldCard s1 c) - 0 < f" using fb c1 by simp
      show "c < length (cards (field s1))" using assms(2) by (simp add: s1)
      show "\<not> hasAttr (fieldCard s1 c) ATTR_D_REANIMATE"
        using assms(3) c1 hasAttr_marked [of ATTR_D_REANIMATE "fieldCard s c" 0] by simp
    qed
    show ?thesis
    proof (cases "RemoveCard_loop f 0 s1 c True")
      case (Inl e)
      with nl Inr f show ?thesis by (simp add: bindE_def)
    next
      case l: (Inr s2)
      with Inr f RemoveCard_move_fuel [of s2 c] show ?thesis by (simp add: bindE_def)
    qed
  qed
qed

lemma DamagePlayer_loop_skip:
  assumes "\<forall>i. i0 \<le> i \<and> i < numCards (field s) \<longrightarrow> \<not> hasAttr (fieldCard s i) ATTR_GUARD"
    and "numCards (field s) - i0 < fuel"
  shows "DamagePlayer_loop fuel i0 dmg s = Inr (dmg, s)"
  using assms
proof (induction fuel arbitrary: i0)
  case 0
  then show ?case by simp
next
  case (Suc fuel)
  show ?case
  proof (cases "i0 < numCards (field s)")
    case False
    then show ?thesis by simp
  next
    case True
    with Suc.prems(1) have ng: "\<not> hasAttr (fieldCard s i0) ATTR_GUARD" by simp
    have "DamagePlayer_loop fuel (Suc i0) dmg s = Inr (dmg, s)"
      by (rule Suc.IH) (use Suc.prems True in auto)
    with True ng show ?thesis by simp
  qed
qed

lemma DamagePlayer_loop_prefix:
  assumes "\<forall>i. i0 \<le> i \<and> i < i0 + k \<longrightarrow> \<not> hasAttr (fieldCard s i) ATTR_GUARD"
    and "i0 + k \<le> numCards (field s)"
  shows "DamagePlayer_loop (k + fuel) i0 dmg s = DamagePlayer_loop fuel (i0 + k) dmg s"
  using assms
proof (induction k arbitrary: i0)
  case 0
  then show ?case by simp
next
  case (Suc k)
  from Suc.prems have lt: "i0 < numCards (field s)"
    and ng: "\<not> hasAttr (fieldCard s i0) ATTR_GUARD" by simp_all
  have "DamagePlayer_loop (k + fuel) (Suc i0) dmg s = DamagePlayer_loop fuel (Suc i0 + k) dmg s"
    by (rule Suc.IH) (use Suc.prems in auto)
  with lt ng show ?case by simp
qed

lemma DamagePlayer_at_guard:
  assumes g: "g < numCards (field s)" and len: "numCards (field s) \<le> length (cards (field s))"
    and guard: "hasAttr (fieldCard s g) ATTR_GUARD"
    and others: "\<forall>i. i < numCards (field s) \<and> i \<noteq> g \<longrightarrow> \<not> hasAttr (fieldCard s i) ATTR_GUARD"
    and G: "0 < hp (fieldCard s g)" and D: "0 \<le> D"
    and nr: "\<not> hasAttr (fieldCard s g) ATTR_D_REANIMATE"
    and fuel: "numCards (field s) + numAttr (fieldCard s g) + 4 \<le> fuel"
  shows "DamagePlayer_loop fuel 0 D s \<noteq> Inl OutOfFuel \<and>
    (\<forall>d s1. DamagePlayer_loop fuel 0 D s = Inr (d, s1) \<longrightarrow>
       d = max 0 (D - hp (fieldCard s g)) \<and>
       hp (fieldCard s1 g) = max 0 (hp (fieldCard s g) - D) \<and>
       numCards (field s1) = numCards (field s) \<and>
       (D < hp (fieldCard s g) \<longrightarrow> s1 = setFieldCard s g ((fieldCard s g)\<lparr>hp := hp (fieldCard s g) - D\<rparr>)) \<and>
       (D < hp (fieldCard s g) \<or> \<not> hasAttr (fieldCard s g) ATTR_D_PRAYER \<longrightarrow>
          playerHp s1 = playerHp s) \<and>
       (hp (fieldCard s g) \<le> D \<longrightarrow>
          fieldCard s1 g = DeadCard \<and>
          (\<not> hasAttr (fieldCard s g) ATTR_DIRT \<and> \<not> hasAttr (fieldCard s g) ATTR_RESURRECTION \<and>
           numCards (grave s) < length (cards (grave s)) \<longrightarrow>
             0 < numCards (grave s1) \<and>
             cards (grave s1) ! (numCards (grave s1) - 1) = InitCard (fieldCard s g))))"
proof -
  define c where "c = fieldCard s g"
  define f where "f = fuel - Suc g"
  have fu: "fuel = g + Suc f" using fuel g by (simp add: f_def)
  have fb: "numCards (field s) - Suc g < f" "numAttr c + 3 \<le> f"
    using fuel g by (simp_all add: f_def c_def)
  have gl: "g < length (cards (field s))" using g len by simp
  have pre: "DamagePlayer_loop fuel 0 D s = DamagePlayer_loop (Suc f) g D s"
    unfolding fu using DamagePlayer_loop_prefix [of 0 g s "Suc f" D] others g by simp
  have cg: "hasAttr c ATTR_GUARD" "0 < hp c" using guard G by (simp_all add: c_def)
  consider (zero) "D = 0" | (less) "0 < D" "D < hp c" | (kill) "hp c \<le> D"
    using D by linarith
  then show ?thesis
  proof cases
    case zero
    have "DamagePlayer_loop f (Suc g) D s = Inr (D, s)"
      by (rule DamagePlayer_loop_skip) (use others fb in auto)
    with zero g cg have "DamagePlayer_loop (Suc f) g D s = Inr (0, s)"
      by (simp add: c_def [symmetric] Let_def)
    moreover have "setFieldCard s g c = s"
      by (simp add: setFieldCard_def c_def fieldCard_def)
    ultimately show ?thesis using pre zero cg
      by (simp add: c_def [symmetric])
  next
    case less
    define s1 where "s1 = setFieldCard s g (c\<lparr>hp := hp c - D\<rparr>)"
    have c1: "fieldCard s1 g = c\<lparr>hp := hp c - D\<rparr>"
      using gl by (simp add: s1_def fieldCard_setFieldCard)
    have o1: "fieldCard s1 j = fieldCard s j" if "j \<noteq> g" for j
      using that by (simp add: s1_def fieldCard_setFieldCard)
    have n1: "numCards (field s1) = numCards (field s)" by (simp add: s1_def)
    have "DamagePlayer_loop f (Suc g) 0 s1 = Inr (0, s1)"
      by (rule DamagePlayer_loop_skip) (use others fb n1 o1 in auto)
    with less g cg c1 have "DamagePlayer_loop (Suc f) g D s = Inr (0, s1)"
      by (simp add: c_def [symmetric] Let_def s1_def [symmetric])
    with pre less c1 n1 show ?thesis
      by (simp add: c_def [symmetric] s1_def [symmetric]) (simp add: s1_def setFieldCard_def)
  next
    case kill
    define s1 where "s1 = setFieldCard s g (c\<lparr>hp := 0\<rparr>)"
    have c1: "fieldCard s1 g = c\<lparr>hp := 0\<rparr>"
      using gl by (simp add: s1_def fieldCard_setFieldCard)
    have o1: "fieldCard s1 j = fieldCard s j" if "j \<noteq> g" for j
      using that by (simp add: s1_def fieldCard_setFieldCard)
    have n1: "numCards (field s1) = numCards (field s)"
      "length (cards (field s1)) = length (cards (field s))" "playerHp s1 = playerHp s"
      "grave s1 = grave s"
      by (simp_all add: s1_def setFieldCard_def)
    have m: "min D (hp c) = hp c" using kill by simp
    have step: "DamagePlayer_loop (Suc f) g D s =
        bindE (RemoveCard f s1 g True) (\<lambda>s2. DamagePlayer_loop f (Suc g) (D - hp c) s2)"
      using g cg c1 by (simp add: c_def [symmetric] Let_def m s1_def [symmetric])
    have nr1: "\<not> hasAttr (fieldCard s1 g) ATTR_D_REANIMATE"
      using nr c1 by (simp add: c_def)
    have nf: "RemoveCard f s1 g True \<noteq> Inl OutOfFuel"
      by (rule RemoveCard_fuel) (use fb c1 gl n1 nr1 in simp_all)
    show ?thesis
    proof (cases "RemoveCard f s1 g True")
      case (Inl e)
      with nf step pre show ?thesis by (simp add: bindE_def)
    next
      case (Inr s2)
      have F: "fieldCard s2 g = DeadCard \<and>
         numCards (field s2) = numCards (field s1) \<and>
         length (cards (field s2)) = length (cards (field s1)) \<and>
         (\<forall>j. j < length (cards (field s1)) \<and> j \<noteq> g \<longrightarrow>
            hasAttr (fieldCard s2 j) ATTR_GUARD = hasAttr (fieldCard s1 j) ATTR_GUARD) \<and>
         (\<not> hasAttr (fieldCard s1 g) ATTR_D_PRAYER \<longrightarrow> playerHp s2 = playerHp s1) \<and>
         (\<not> hasAttr (fieldCard s1 g) ATTR_DIRT \<and> \<not> hasAttr (fieldCard s1 g) ATTR_RESURRECTION \<and>
          numCards (grave s1) < length (cards (grave s1)) \<longrightarrow>
            0 < numCards (grave s2) \<and>
            cards (grave s2) ! (numCards (grave s2) - 1) = InitCard (fieldCard s1 g))"
        by (rule RemoveCard_frame [OF Inr]) (use gl n1 nr1 in simp_all)
      have ng: "\<forall>i. Suc g \<le> i \<and> i < numCards (field s2) \<longrightarrow> \<not> hasAttr (fieldCard s2 i) ATTR_GUARD"
      proof (intro allI impI)
        fix i
        assume i: "Suc g \<le> i \<and> i < numCards (field s2)"
        with F n1 len have il: "i < length (cards (field s1))" "i \<noteq> g" "i < numCards (field s)"
          by simp_all
        with F have "hasAttr (fieldCard s2 i) ATTR_GUARD = hasAttr (fieldCard s1 i) ATTR_GUARD"
          by simp
        with il o1 [of i] others show "\<not> hasAttr (fieldCard s2 i) ATTR_GUARD" by simp
      qed
      have "DamagePlayer_loop f (Suc g) (D - hp c) s2 = Inr (D - hp c, s2)"
        by (rule DamagePlayer_loop_skip [OF ng]) (use fb F n1 in simp)
      with step Inr pre have r: "DamagePlayer_loop fuel 0 D s = Inr (D - hp c, s2)"
        by simp
      have ic: "InitCard (fieldCard s1 g) = InitCard c"
        unfolding c1 by (simp add: InitCard_def)
      have hd: "hp DeadCard = 0" by (simp add: DeadCard_def)
      from r F n1 kill c1 ic hd show ?thesis
        by (simp add: c_def [symmetric])
    qed
  qed
qed

lemma bindE_weak_cong: "m = m' \<Longrightarrow> bindE m f = bindE m' f"
  by simp

lemmas battle_evals =
  DamagePlayer_def eval_nat_numeral fieldCard_def setFieldCard_def
  PickReanimatableCard_def pickEligible_def exState_def
  countEligible.simps findEligible.simps reanimatable_def hasAttr_def HasAttr_def
  Rnd_def myRand_def Let_def RemoveCard_mark_def AddAttr_def DeadAttr_def RemoveCard_attr_def
  SimReanimate_place_def RemoveCardFromSet_def shiftLeft.simps AddCardToSet_def
  CardPlayedToField_quick_def CardPlayedToField_receive_def HandleBuffsFromCardPlayed_def
  HandleBuffsFromCardPlayed_loop.simps HandleBuffsFromCardPlayed_attr_def
  RemoveCard_move_def InitCard_def addToDestination_def DeadCard_def zeroSet_def zeroCard_def

text \<open>
  Claim C7, as stated, does not hold. The only card of the field is a guard with 100 hit
  points and Desperation: Reanimate, and the graveyard holds another guard. A hit of 300
  kills the first guard, whose death brings the second one to the end of the field; the
  loop of \<open>DamagePlayer\<close>, which tests the current number of field cards, reaches it and
  lets it absorb the other 200. Nothing is subtracted from the player's hit points, where
  the claim gives \<open>max(0, 300 - 100) = 200\<close>.
\<close>

theorem DamagePlayer_guard_counterexample:
  "numCards (field reanimState) = 1 \<and> hasAttr (fieldCard reanimState 0) ATTR_GUARD \<and>
   hp (fieldCard reanimState 0) = 100 \<and>
   (case DamagePlayer 30 reanimState 300 of
      Inl e \<Rightarrow> False
    | Inr s' \<Rightarrow>
        playerHp reanimState - playerHp s' = 0 \<and>
        max 0 (300 - hp (fieldCard reanimState 0)) = 200 \<and>
        name (fieldCard s' 1) = ''Guard B'' \<and> hp (fieldCard s' 1) = 300)"
  by (simp add: battle_evals reanimState_def guardA_def guardB_def cong: bindE_weak_cong)

text \<open>
  Claim C7, amended. Let the field hold exactly one card with Guard, at index \<open>g\<close>, with
  \<open>G > 0\<close> hit points and without Desperation: Reanimate, and let the hit be \<open>D \<ge> 0\<close>. With
  fuel above the number of field cards and of the guard's attributes, \<open>DamagePlayer\<close> does
  not run out of fuel, and whenever it returns: the damage left over by the loop and
  subtracted from the player's hit points is \<open>max(0, D - G)\<close>; the card in the guard's slot
  has \<open>max(0, G - D)\<close> hit points; the player's hit points fall by exactly \<open>max(0, D - G)\<close>
  when the guard survives or has no Desperation: Prayer; and when \<open>G \<le> D\<close> the slot holds
  \<open>DeadCard\<close> and, unless the guard has Dirt or Resurrection, the last card of the graveyard
  is the guard reset by \<open>InitCard\<close>.
\<close>

theorem DamagePlayer_guard:
  assumes "g < numCards (field s)" and "numCards (field s) \<le> length (cards (field s))"
    and "hasAttr (fieldCard s g) ATTR_GUARD"
    and "\<forall>i. i < numCards (field s) \<and> i \<noteq> g \<longrightarrow> \<not> hasAttr (fieldCard s i) ATTR_GUARD"
    and "0 < hp (fieldCard s g)" and "0 \<le> D"
    and "\<not> hasAttr (fieldCard s g) ATTR_D_REANIMATE"
    and "numCards (field s) + numAttr (fieldCard s g) + 4 \<le> fuel"
  shows "DamagePlayer fuel s D \<noteq> Inl OutOfFuel \<and>
    (\<forall>s'. DamagePlayer fuel s D = Inr s' \<longrightarrow>
       (\<exists>s1. DamagePlayer_loop fuel 0 D s = Inr (max 0 (D - hp (fieldCard s g)), s1) \<and>
             s' = s1\<lparr>playerHp := playerHp s1 - max 0 (D - hp (fieldCard s g))\<rparr>) \<and>
       hp (fieldCard s' g) = max 0 (hp (fieldCard s g) - D) \<and>
       numCards (field s') = numCards (field s) \<and>
       (D < hp (fieldCard s g) \<or> \<not> hasAttr (fieldCard s g) ATTR_D_PRAYER \<longrightarrow>
          playerHp s - playerHp s' = max 0 (D - hp (fieldCard s g))) \<and>
       (hp (fieldCard s g) \<le> D \<longrightarrow>
          fieldCard s' g = DeadCard \<and>
          (\<not> hasAttr (fieldCard s g) ATTR_DIRT \<and> \<not> hasAttr (fieldCard s g) ATTR_RESURRECTION \<and>
           numCards (grave s) < length (cards (grave s)) \<longrightarrow>
             0 < numCards (grave s') \<and>
             cards (grave s') ! (numCards (grave s') - 1) = InitCard (fieldCard s g))))"
proof -
  note L = DamagePlayer_at_guard [OF assms]
  show ?thesis
  proof (cases "DamagePlayer_loop fuel 0 D s")
    case (Inl e)
    with L show ?thesis by (simp add: DamagePlayer_def)
  next
    case (Inr p)
    obtain d s1 where p: "p = (d, s1)" by (cases p)
    from L Inr p have
      "d = max 0 (D - hp (fieldCard s g)) \<and>
       hp (fieldCard s1 g) = max 0 (hp (fieldCard s g) - D) \<and>
       numCards (field s1) = numCards (field s) \<and>
       (D < hp (fieldCard s g) \<longrightarrow> s1 = setFieldCard s g ((fieldCard s g)\<lparr>hp := hp (fieldCard s g) - D\<rparr>)) \<and>
       (D < hp (fieldCard s g) \<or> \<not> hasAttr (fieldCard s g) ATTR_D_PRAYER \<longrightarrow>
          playerHp s1 = playerHp s) \<and>
       (hp (fieldCard s g) \<le> D \<longrightarrow>
          fieldCard s1 g = DeadCard \<and>
          (\<not> hasAttr (fieldCard s g) ATTR_DIRT \<and> \<not> hasAttr (fieldCard s g) ATTR_RESURRECTION \<and>
           numCards (grave s) < length (cards (grave s)) \<longrightarrow>
             0 < numCards (grave s1) \<and>
             cards (grave s1) ! (numCards (grave s1) - 1) = InitCard (fieldCard s g)))"
      by blast
    moreover have "DamagePlayer fuel s D = Inr (s1\<lparr>playerHp := playerHp s1 - d\<rparr>)"
      using Inr p by (simp add: DamagePlayer_def)
    ultimately show ?thesis using Inr p by (auto simp: fieldCard_def)
  qed
qed

theorem DamagePlayer_guard_witness:
  "DamagePlayer 20 guardState 700 \<noteq> Inl OutOfFuel \<and>
   (\<exists>s'. DamagePlayer 20 guardState 700 = Inr s' \<and>
      hp (fieldCard s' 1) = 0 \<and> playerHp guardState - playerHp s' = 200 \<and>
      fieldCard s' 1 = DeadCard \<and> 0 < numCards (grave s') \<and>
      cards (grave s') ! (numCards (grave s') - 1) = InitCard guardB)"
proof -
  have c: "fieldCard guardState 0 = dodger" "fieldCard guardState 1 = guardB"
    "fieldCard guardState 2 = dodger"
    by (simp_all add: guardState_def fieldCard_def)
  have n: "numCards (field guardState) = 3" "length (cards (field guardState)) = 20"
    "numCards (grave guardState) = 0" "length (cards (grave guardState)) = 20"
    by (simp_all add: guardState_def exState_def zeroSet_def)
  have b: "hasAttr guardB ATTR_GUARD" "hp guardB = 500" "numAttr guardB = 1"
    "\<not> hasAttr guardB ATTR_D_REANIMATE" "\<not> hasAttr guardB ATTR_D_PRAYER"
    "\<not> hasAttr guardB ATTR_DIRT" "\<not> hasAttr guardB ATTR_RESURRECTION"
    "\<not> hasAttr dodger ATTR_GUARD"
    by code_simp+
  have others: "\<forall>i. i < numCards (field guardState) \<and> i \<noteq> 1 \<longrightarrow>
      \<not> hasAttr (fieldCard guardState i) ATTR_GUARD"
  proof (intro allI impI)
    fix i :: nat
    assume "i < numCards (field guardState) \<and> i \<noteq> 1"
    with n consider "i = 0" | "i = 2" by linarith
    then show "\<not> hasAttr (fieldCard guardState i) ATTR_GUARD"
      using c b by cases simp_all
  qed
  have h: "1 < numCards (field guardState)"
    "numCards (field guardState) \<le> length (cards (field guardState))"
    "hasAttr (fieldCard guardState 1) ATTR_GUARD"
    using c n b by simp_all
  have k: "0 < hp (fieldCard guardState 1)" "(0::int) \<le> 700"
    "\<not> hasAttr (fieldCard guardState 1) ATTR_D_REANIMATE"
    "numCards (field guardState) + numAttr (fieldCard guardState 1) + 4 \<le> 20"
    using c n b by simp_all
  note inst = DamagePlayer_guard [OF h others k]
  have "case DamagePlayer 20 guardState 700 of Inl e \<Rightarrow> False | Inr s' \<Rightarrow> True"
    by (simp add: battle_evals guardState_def guardB_def dodger_def cong: bindE_weak_cong)
  then obtain s' where s': "DamagePlayer 20 guardState 700 = Inr s'"
    by (auto split: sum.splits)
  from inst s' have
       "hp (fieldCard s' 1) = max 0 (hp (fieldCard guardState 1) - 700) \<and>
       numCards (field s') = numCards (field guardState) \<and>
       (700 < hp (fieldCard guardState 1) \<or> \<not> hasAttr (fieldCard guardState 1) ATTR_D_PRAYER \<longrightarrow>
          playerHp guardState - playerHp s' = max 0 (700 - hp (fieldCard guardState 1))) \<and>
       (hp (fieldCard guardState 1) \<le> 700 \<longrightarrow>
          fieldCard s' 1 = DeadCard \<and>
          (\<not> hasAttr (fieldCard guardState 1) ATTR_DIRT \<and>
           \<not> hasAttr (fieldCard guardState 1) ATTR_RESURRECTION \<and>
           numCards (grave guardState) < length (cards (grave guardState)) \<longrightarrow>
             0 < numCards (grave s') \<and>
             cards (grave s') ! (numCards (grave s') - 1) = InitCard (fieldCard guardState 1)))"
    by blast
  moreover have "hp DeadCard = 0" by (simp add: DeadCard_def)
  ultimately have
    "hp (fieldCard s' 1) = 0 \<and> playerHp guardState - playerHp s' = 200 \<and>
      fieldCard s' 1 = DeadCard \<and> 0 < numCards (grave s') \<and>
      cards (grave s') ! (numCards (grave s') - 1) = InitCard guardB"
    using c n b by simp
  with inst s' show ?thesis by blast
qed

section \<open>A stale card pointer in Toxic Clouds\<close>

text \<open>Rules to run the functions on a fuel given as a numeral, without unfolding the
  other numerals.\<close>

lemma replicate_numeral_Cons: "replicate (numeral k) x = x # replicate (pred_numeral k) x"
  by (simp add: numeral_eq_Suc)

lemma Let_eval_cong: "a = b \<Longrightarrow> Let a f = Let b f"
  by simp

lemmas fuel_numeral =
  replicate_numeral_Cons
  RemoveCard.simps(2) [of "pred_numeral k", folded numeral_eq_Suc]
  RemoveCard_loop.simps(2) [of "pred_numeral k", folded numeral_eq_Suc]
  SimReanimate.simps(2) [of "pred_numeral k", folded numeral_eq_Suc]
  CardPlayedToField.simps(2) [of "pred_numeral k", folded numeral_eq_Suc]
  DamagePlayer_loop.simps(2) [of "pred_numeral k", folded numeral_eq_Suc]
  SimDemonAttack_chain.simps(2) [of "pred_numeral k", folded numeral_eq_Suc]
  SimDemon_toxicClouds.simps(2) [of "pred_numeral k", folded numeral_eq_Suc]
  SimDemon_loop.simps(2) [of "pred_numeral k", folded numeral_eq_Suc]
  SimPlayerCard_abilities.simps(2) [of "pred_numeral k", folded numeral_eq_Suc]
  SimPlayerCard_statuses.simps(2) [of "pred_numeral k", folded numeral_eq_Suc]
  SimPlayer_cards.simps(2) [of "pred_numeral k", folded numeral_eq_Suc]
  PlayCardsFromHand_loop.simps(2) [of "pred_numeral k", folded numeral_eq_Suc]
  Simulate_loop.simps(2) [of "pred_numeral k", folded numeral_eq_Suc]
  for k

text \<open>
  Claim C10. The claim fails on the code where a card below the card with Immunity dies
  with Desperation: Reanimate and the reanimated card has Sacrifice. In \<open>aliasState\<close> the
  field is Weak (Desperation: Reanimate, 100 hit points), Immune, Plain, and the graveyard
  holds Butcher (Sacrifice). Toxic Clouds of level 200 kill Weak; \<open>RemoveCard\<close> reanimates
  Butcher, whose Sacrifice removes Weak a second time and compacts the field at once with
  \<open>RemoveDeadCards\<close>; the slot that \<open>RemoveCard\<close> still names now holds Immune, which is
  replaced by the dead card and sent to the graveyard. The loop then never meets a living
  card with Immunity, and Plain and Butcher take the damage and the attribute.
\<close>

theorem toxicClouds_overwrites_immune:
  "0 < hp (fieldCard aliasState 1) \<and> hasAttr (fieldCard aliasState 1) ATTR_IMMUNITY \<and>
   \<not> hasAttr (fieldCard aliasState 0) ATTR_IMMUNITY \<and>
   fieldCard aliasState 2 = plain \<and>
   (case SimDemon_toxicClouds 30 0 \<lparr>type = ATTR_TOXIC_CLOUDS, level = 200\<rparr> aliasState of
      Inl e \<Rightarrow> False
    | Inr s' \<Rightarrow>
        numCards (field s') = 3 \<and>
        fieldCard s' 0 = DeadCard \<and>
        fieldCard s' 1 = plain\<lparr>hp := 300, attr := [\<lparr>type = ATTR_TOXIC_CLOUDS, level = 200\<rparr>]\<rparr> \<and>
        name (fieldCard s' 2) = ''Butcher'' \<and> hp (fieldCard s' 2) = 550 \<and>
        hasAttr (fieldCard s' 2) ATTR_TOXIC_CLOUDS \<and>
        numCards (grave s') = 2 \<and> name (cards (grave s') ! 0) = ''Weak'' \<and>
        name (cards (grave s') ! 1) = ''Immune'')"
  by (simp add: fuel_numeral battle_evals aliasState_def weak_def plain_def butcher_def
      immune_def dodger_def CardPlayedToField_sacrifice_def RemoveDeadCards_def
      RemoveDeadCards_loop.simps cdiv_def
      del: eval_nat_numeral cong: bindE_weak_cong prod.case_cong_weak Let_eval_cong)

section \<open>Fuel and determinism\<close>

text \<open>More fuel does not change a result: a function of the model either runs out of
  fuel or returns what it returns with one more unit of fuel. The rules go through
  \<open>bindE\<close>, \<open>if\<close>, \<open>let\<close> and \<open>case\<close>.\<close>

lemma fuel_le_refl: "fuel_le r r"
  by (simp add: fuel_le_def)

lemma fuel_le_bottom: "fuel_le (Inl OutOfFuel) r"
  by (simp add: fuel_le_def)

lemma fuel_le_trans: "fuel_le a b \<Longrightarrow> fuel_le b c \<Longrightarrow> fuel_le a c"
  by (auto simp: fuel_le_def)

lemma fuel_le_bindE:
  "fuel_le m m' \<Longrightarrow> (\<And>x. fuel_le (f x) (f' x)) \<Longrightarrow> fuel_le (bindE m f) (bindE m' f')"
proof (cases m)
  case (Inl e)
  assume "fuel_le m m'"
  with Inl show ?thesis by (auto simp: fuel_le_def bindE_def)
next
  case (Inr x)
  assume a: "fuel_le m m'" and b: "\<And>x. fuel_le (f x) (f' x)"
  from a Inr have "m' = Inr x" by (simp add: fuel_le_def)
  with Inr b [of x] show ?thesis by (simp add: bindE_def)
qed

lemma fuel_le_if:
  "fuel_le a a' \<Longrightarrow> fuel_le b b' \<Longrightarrow> fuel_le (if c then a else b) (if c then a' else b')"
  by simp

lemma fuel_le_Let: "(\<And>x. fuel_le (f x) (g x)) \<Longrightarrow> fuel_le (Let v f) (Let v g)"
  by (simp add: Let_def)

lemma fuel_le_case_prod:
  "(\<And>a b. fuel_le (f a b) (g a b)) \<Longrightarrow> fuel_le (case_prod f p) (case_prod g p)"
  by (cases p) simp

lemma fuel_le_case_option:
  "fuel_le a a' \<Longrightarrow> (\<And>x. fuel_le (f x) (g x)) \<Longrightarrow>
   fuel_le (case_option a f v) (case_option a' g v)"
  by (cases v) simp_all

lemmas fuel_le_rules =
  fuel_le_refl fuel_le_bindE fuel_le_if fuel_le_Let fuel_le_case_prod fuel_le_case_option

lemma death_mono:
  "(\<forall>s c sg. fuel_le (RemoveCard n s c sg) (RemoveCard (Suc n) s c sg)) \<and>
   (\<forall>i s c sg. fuel_le (RemoveCard_loop n i s c sg) (RemoveCard_loop (Suc n) i s c sg)) \<and>
   (\<forall>s. fuel_le (SimReanimate n s) (SimReanimate (Suc n) s)) \<and>
   (\<forall>s c. fuel_le (CardPlayedToField n s c) (CardPlayedToField (Suc n) s c))"
proof (induction n)
  case 0
  show ?case by (simp add: fuel_le_bottom)
next
  case (Suc n)
  from Suc.IH have
    rc: "\<And>s c sg. fuel_le (RemoveCard n s c sg) (RemoveCard (Suc n) s c sg)" and
    rl: "\<And>i s c sg. fuel_le (RemoveCard_loop n i s c sg) (RemoveCard_loop (Suc n) i s c sg)" and
    sr: "\<And>s. fuel_le (SimReanimate n s) (SimReanimate (Suc n) s)" and
    cp: "\<And>s c. fuel_le (CardPlayedToField n s c) (CardPlayedToField (Suc n) s c)"
    by blast+
  have A: "fuel_le (RemoveCard (Suc n) s c sg) (RemoveCard (Suc (Suc n)) s c sg)" for s c sg
    apply (subst RemoveCard.simps(2))
    apply (subst RemoveCard.simps(2))
    by (intro fuel_le_rules rl)
  have B: "fuel_le (RemoveCard_loop (Suc n) i s c sg) (RemoveCard_loop (Suc (Suc n)) i s c sg)"
    for i s c sg
    apply (subst RemoveCard_loop.simps(2))
    apply (subst RemoveCard_loop.simps(2))
    by (intro fuel_le_rules rl sr)
  have C: "fuel_le (SimReanimate (Suc n) s) (SimReanimate (Suc (Suc n)) s)" for s
    apply (subst SimReanimate.simps(2))
    apply (subst SimReanimate.simps(2))
    by (intro fuel_le_rules cp)
  have D: "fuel_le (CardPlayedToField (Suc n) s c) (CardPlayedToField (Suc (Suc n)) s c)" for s c
    apply (subst CardPlayedToField.simps(2))
    apply (subst CardPlayedToField.simps(2))
    by (intro fuel_le_rules rc)
  from A B C D show ?case by blast
qed

lemma RemoveCard_mono: "fuel_le (RemoveCard n s c sg) (RemoveCard (Suc n) s c sg)"
  using death_mono [of n] by blast

lemma SimReanimate_mono: "fuel_le (SimReanimate n s) (SimReanimate (Suc n) s)"
  using death_mono [of n] by blast

lemma CardPlayedToField_mono: "fuel_le (CardPlayedToField n s c) (CardPlayedToField (Suc n) s c)"
  using death_mono [of n] by blast

lemma DamagePlayer_loop_mono: "fuel_le (DamagePlayer_loop n i dmg s) (DamagePlayer_loop (Suc n) i dmg s)"
proof (induction n arbitrary: i dmg s)
  case 0
  show ?case by (simp add: fuel_le_bottom)
next
  case (Suc n)
  show ?case
    apply (subst DamagePlayer_loop.simps(2))
    apply (subst DamagePlayer_loop.simps(2))
    by (intro fuel_le_rules Suc.IH RemoveCard_mono)
qed

lemma DamagePlayer_mono: "fuel_le (DamagePlayer n s dmg) (DamagePlayer (Suc n) s dmg)"
  unfolding DamagePlayer_def by (intro fuel_le_rules DamagePlayer_loop_mono)

lemma DamageCard_mono: "fuel_le (DamageCard n s c dmg) (DamageCard (Suc n) s c dmg)"
  unfolding DamageCard_def by (intro fuel_le_rules RemoveCard_mono)

lemma SimDemonAttack_chain_mono: "fuel_le (SimDemonAttack_chain n i nm d s) (SimDemonAttack_chain (Suc n) i nm d s)"
proof (induction n arbitrary: i nm d s)
  case 0
  show ?case by (simp add: fuel_le_bottom)
next
  case (Suc n)
  show ?case
    apply (subst SimDemonAttack_chain.simps(2))
    apply (subst SimDemonAttack_chain.simps(2))
    by (intro fuel_le_rules Suc.IH DamageCard_mono)
qed

lemma SimDemonAttack_mono: "fuel_le (SimDemonAttack n s dmg) (SimDemonAttack (Suc n) s dmg)"
  unfolding SimDemonAttack_def by (intro fuel_le_rules DamageCard_mono SimDemonAttack_chain_mono DamagePlayer_mono)

lemma SimDemon_toxicClouds_mono: "fuel_le (SimDemon_toxicClouds n j a s) (SimDemon_toxicClouds (Suc n) j a s)"
proof (induction n arbitrary: j a s)
  case 0
  show ?case by (simp add: fuel_le_bottom)
next
  case (Suc n)
  show ?case
    apply (subst SimDemon_toxicClouds.simps(2))
    apply (subst SimDemon_toxicClouds.simps(2))
    by (intro fuel_le_rules Suc.IH RemoveCard_mono)
qed

lemma hitPickedCard_mono: "fuel_le (hitPickedCard n s c dmg) (hitPickedCard (Suc n) s c dmg)"
  unfolding hitPickedCard_def by (intro fuel_le_rules RemoveCard_mono)

lemma SimDemon_attr_mono: "fuel_le (SimDemon_attr n s a) (SimDemon_attr (Suc n) s a)"
  unfolding SimDemon_attr_def by (intro fuel_le_rules DamagePlayer_mono RemoveCard_mono hitPickedCard_mono SimDemon_toxicClouds_mono)

lemma SimDemon_loop_mono: "fuel_le (SimDemon_loop n i s) (SimDemon_loop (Suc n) i s)"
proof (induction n arbitrary: i s)
  case 0
  show ?case by (simp add: fuel_le_bottom)
next
  case (Suc n)
  show ?case
    apply (subst SimDemon_loop.simps(2))
    apply (subst SimDemon_loop.simps(2))
    by (intro fuel_le_rules Suc.IH SimDemon_attr_mono)
qed

lemma SimDemon_mono: "fuel_le (SimDemon n s) (SimDemon (Suc n) s)"
  unfolding SimDemon_def by (intro fuel_le_rules SimDemon_loop_mono SimDemonAttack_mono)

lemma SimPlayerAttack_counter_mono: "fuel_le (SimPlayerAttack_counter n s i lvl) (SimPlayerAttack_counter (Suc n) s i lvl)"
  unfolding SimPlayerAttack_counter_def by (intro fuel_le_rules RemoveCard_mono)

lemma SimPlayerAttack_counters_mono: "fuel_le (SimPlayerAttack_counters n s) (SimPlayerAttack_counters (Suc n) s)"
  unfolding SimPlayerAttack_counters_def by (intro fuel_le_rules SimPlayerAttack_counter_mono)

lemma SimPlayerAttack_mono: "fuel_le (SimPlayerAttack n cfg s) (SimPlayerAttack (Suc n) cfg s)"
  unfolding SimPlayerAttack_def by (intro fuel_le_rules SimPlayerAttack_counters_mono)

lemma SimPlayerCard_ability_mono: "fuel_le (SimPlayerCard_ability n s c a) (SimPlayerCard_ability (Suc n) s c a)"
  unfolding SimPlayerCard_ability_def by (intro fuel_le_rules SimReanimate_mono RemoveCard_mono)

lemma SimPlayerCard_abilities_mono: "fuel_le (SimPlayerCard_abilities n i c s) (SimPlayerCard_abilities (Suc n) i c s)"
proof (induction n arbitrary: i c s)
  case 0
  show ?case by (simp add: fuel_le_bottom)
next
  case (Suc n)
  show ?case
    apply (subst SimPlayerCard_abilities.simps(2))
    apply (subst SimPlayerCard_abilities.simps(2))
    by (intro fuel_le_rules Suc.IH SimPlayerCard_ability_mono)
qed

lemma SimPlayerCard_status_mono: "fuel_le (SimPlayerCard_status n s c a) (SimPlayerCard_status (Suc n) s c a)"
  unfolding SimPlayerCard_status_def by (intro fuel_le_rules RemoveCard_mono)

lemma SimPlayerCard_statuses_mono: "fuel_le (SimPlayerCard_statuses n i c s) (SimPlayerCard_statuses (Suc n) i c s)"
proof (induction n arbitrary: i c s)
  case 0
  show ?case by (simp add: fuel_le_bottom)
next
  case (Suc n)
  show ?case
    apply (subst SimPlayerCard_statuses.simps(2))
    apply (subst SimPlayerCard_statuses.simps(2))
    by (intro fuel_le_rules Suc.IH SimPlayerCard_status_mono)
qed

lemma SimPlayerCard_after_mono: "fuel_le (SimPlayerCard_after n s c t) (SimPlayerCard_after (Suc n) s c t)"
  unfolding SimPlayerCard_after_def by (intro fuel_le_rules SimPlayerCard_statuses_mono)

lemma SimPlayerCard_mono: "fuel_le (SimPlayerCard n cfg s c) (SimPlayerCard (Suc n) cfg s c)"
  unfolding SimPlayerCard_def by (intro fuel_le_rules SimPlayerCard_after_mono SimPlayerCard_abilities_mono SimPlayerAttack_mono)

lemma SimPlayer_cards_mono: "fuel_le (SimPlayer_cards n cfg i s) (SimPlayer_cards (Suc n) cfg i s)"
proof (induction n arbitrary: cfg i s)
  case 0
  show ?case by (simp add: fuel_le_bottom)
next
  case (Suc n)
  show ?case
    apply (subst SimPlayer_cards.simps(2))
    apply (subst SimPlayer_cards.simps(2))
    by (intro fuel_le_rules Suc.IH SimPlayerCard_mono)
qed

lemma SimPlayer_mono: "fuel_le (SimPlayer n cfg s) (SimPlayer (Suc n) cfg s)"
  unfolding SimPlayer_def by (intro fuel_le_rules SimPlayer_cards_mono)

lemma PlayCardsFromHand_loop_mono: "fuel_le (PlayCardsFromHand_loop n i s) (PlayCardsFromHand_loop (Suc n) i s)"
proof (induction n arbitrary: i s)
  case 0
  show ?case by (simp add: fuel_le_bottom)
next
  case (Suc n)
  show ?case
    apply (subst PlayCardsFromHand_loop.simps(2))
    apply (subst PlayCardsFromHand_loop.simps(2))
    by (intro fuel_le_rules Suc.IH CardPlayedToField_mono)
qed

lemma PlayCardsFromHand_mono: "fuel_le (PlayCardsFromHand n s) (PlayCardsFromHand (Suc n) s)"
  unfolding PlayCardsFromHand_def by (intro fuel_le_rules PlayCardsFromHand_loop_mono)

lemma Simulate_loop_mono: "fuel_le (Simulate_loop n cfg lrx s h) (Simulate_loop (Suc n) cfg lrx s h)"
proof (induction n arbitrary: cfg lrx s h)
  case 0
  show ?case by (simp add: fuel_le_bottom)
next
  case (Suc n)
  show ?case
    apply (subst Simulate_loop.simps(2))
    apply (subst Simulate_loop.simps(2))
    by (intro fuel_le_rules Suc.IH PlayCardsFromHand_mono SimPlayer_mono SimDemon_mono)
qed

lemma Simulate_mono: "fuel_le (Simulate n cfg s lrx h) (Simulate (Suc n) cfg s lrx h)"
  unfolding Simulate_def by (intro fuel_le_rules Simulate_loop_mono)

lemma fuel_le_chain:
  assumes "\<And>n. fuel_le (f n) (f (Suc n))" and "n \<le> m"
  shows "fuel_le (f n) (f m)"
  using assms(2)
proof (induction m)
  case 0
  then show ?case by (simp add: fuel_le_refl)
next
  case (Suc m)
  show ?case
  proof (cases "n = Suc m")
    case True
    then show ?thesis by (simp add: fuel_le_refl)
  next
    case False
    with Suc.prems have "n \<le> m" by simp
    from fuel_le_trans [OF Suc.IH [OF this] assms(1)] show ?thesis .
  qed
qed

lemma Simulate_fuel:
  "n \<le> m \<Longrightarrow> fuel_le (Simulate n cfg s x h) (Simulate m cfg s x h)"
  by (rule fuel_le_chain [where f = "\<lambda>n. Simulate n cfg s x h"]) (rule Simulate_mono)

text \<open>A battle of six rounds: the only card of the deck enters the field in round 2, the
  demon attacks it in round 5, which draws a random number for its Dodge, and the card
  attacks the demon in round 6.\<close>

lemmas round_evals =
  Simulate_def continues_def DecreaseTimers_def DecreaseTimers_loop.simps
  PlayCardsFromDeck_def PlayCardsFromHand_def SimPlayer_def HandleRunes_def
  HandleRunes_deactivate_loop.simps HandleRunes_activate_loop.simps
  SimPlayerCard_def SimPlayerCard_ability_def SimPlayerAttack_def
  ReducePhysDmg_def damageDemon_def SimPlayerAttack_counters_def SimPlayerCard_after_def
  SimPlayerCard_status_def SimPlayer_backstab.simps RemoveDeadCards_def
  RemoveDeadCards_loop.simps SimDemon_def SimDemonAttack_def DamageCard_def dodges_def
  CardPlayedToField_quick_def CardPlayedToField_receive_def HandleBuffsFromCardPlayed_def
  HandleBuffsFromCardPlayed_loop.simps

lemma battle_run:
  "(case Simulate 20 shortConfig battleState 50 False of
      Inl e \<Rightarrow> False
    | Inr (s', hit) \<Rightarrow>
        round s' = 6 \<and> hp (demon s') = - 900 \<and> dmgDone s' = 1000 \<and>
        seedW s' = 18000 \<and> hp (fieldCard s' 0) = 490 \<and> \<not> hit)"
  by (simp add: fuel_numeral round_evals battle_evals battleState_def shortConfig_def
      striker_def weakDemon_def
      del: eval_nat_numeral cong: bindE_weak_cong prod.case_cong_weak Let_eval_cong)



section \<open>Hit points\<close>


lemma dodges_frame:
  "field (snd (dodges s c t)) = field s \<and> demon (snd (dodges s c t)) = demon s"
  using Rnd_frame [of s 100]
  by (simp add: dodges_def Rnd_def myRand_def Let_def split_def split: option.splits)

lemma DamageCard_triggers_frame:
  "numCards (field (DamageCard_triggers as c s)) = numCards (field s) \<and>
   length (cards (field (DamageCard_triggers as c s))) = length (cards (field s)) \<and>
   hp (fieldCard (DamageCard_triggers as c s) c) = hp (fieldCard s c) \<and>
   maxHp (fieldCard (DamageCard_triggers as c s) c) = maxHp (fieldCard s c) \<and>
   attr (fieldCard (DamageCard_triggers as c s) c) = attr (fieldCard s c)"
proof (induction as arbitrary: s)
  case Nil
  show ?case by simp
next
  case (Cons a as)
  define s1 where "s1 =
       (let cc = fieldCard s c; lvl = level a
        in if type a = ATTR_CRAZE \<or> type a = ATTR_TSUNAMI then
             setFieldCard s c (cc\<lparr>atk := atk cc + lvl, curBaseAtk := curBaseAtk cc + lvl\<rparr>)
           else if type a = ATTR_COUNTERATTACK \<or> type a = ATTR_RETALIATION \<or>
                   type a = ATTR_THUNDER_SHIELD \<or> type a = ATTR_FIRE_FORGE then
             damageDemon s lvl
           else if type a = ATTR_WICKED_LEECH then
             (let d = demon s;
                  atkLoss = cdiv (curBaseAtk d * lvl) 100;
                  s1 = s\<lparr>demon := d\<lparr>curBaseAtk := curBaseAtk d - atkLoss,
                                          atk := atk d - atkLoss\<rparr>\<rparr>
              in setFieldCard s1 c
                   (cc\<lparr>atk := atk cc + atkLoss, curBaseAtk := curBaseAtk cc + atkLoss\<rparr>))
           else s)"
  have e: "DamageCard_triggers (a # as) c s = DamageCard_triggers as c s1"
    by (simp add: s1_def)
  have f: "numCards (field s1) = numCards (field s) \<and>
     length (cards (field s1)) = length (cards (field s)) \<and>
     hp (fieldCard s1 c) = hp (fieldCard s c) \<and>
     maxHp (fieldCard s1 c) = maxHp (fieldCard s c) \<and>
     attr (fieldCard s1 c) = attr (fieldCard s c)"
    by (cases "c < length (cards (field s))")
       (simp_all add: s1_def Let_def damageDemon_def fieldCard_def setFieldCard_def
          list_update_beyond)
  from Cons.IH [of s1] f show ?case unfolding e by simp
qed

lemma SimDemonLacerate_frame:
  "SimDemonLacerate c = Inr c' \<Longrightarrow> hp c' = hp c \<and> maxHp c' = maxHp c"
  by (auto simp: SimDemonLacerate_def AddAttr_def split: if_splits)

lemma DeadCard_dead: "hp DeadCard = 0 \<and> maxHp DeadCard = 0 \<and> hasAttr DeadCard ATTR_DEAD"
  by code_simp

lemma DamageCard_bounds:
  assumes r: "DamageCard fuel s c dmg = Inr (d, s')"
    and c: "c < length (cards (field s))"
    and h: "0 \<le> hp (fieldCard s c)" "hp (fieldCard s c) \<le> maxHp (fieldCard s c)"
    and nr: "\<not> hasAttr (fieldCard s c) ATTR_D_REANIMATE"
  shows "0 \<le> d \<and> numCards (field s') = numCards (field s) \<and>
         0 \<le> hp (fieldCard s' c) \<and> hp (fieldCard s' c) \<le> maxHp (fieldCard s' c) \<and>
         (d = 0 \<longrightarrow> fieldCard s' c = fieldCard s c) \<and>
         (0 < d \<and> d < hp (fieldCard s c) \<longrightarrow>
            hp (fieldCard s' c) = hp (fieldCard s c) - d \<and>
            maxHp (fieldCard s' c) = maxHp (fieldCard s c)) \<and>
         (0 < d \<and> hp (fieldCard s c) \<le> d \<longrightarrow> fieldCard s' c = DeadCard)"
proof -
  define p1 where "p1 = dodges s c ATTR_NIMBLE_SOUL"
  define p2 where "p2 = dodges (snd p1) c ATTR_DODGE"
  define s2 where "s2 = snd p2"
  define cc where "cc = fieldCard s2 c"
  define dmg' where "dmg' = ReducePhysDmg cc dmg"
  define hp' where "hp' = (if hp cc - dmg' \<le> 0 then 0 else hp cc - dmg')"
  define s3 where "s3 = setFieldCard s2 c (cc\<lparr>hp := hp'\<rparr>)"
  define s4 where "s4 = DamageCard_triggers (attr (fieldCard s3 c)) c s3"
  have unf: "DamageCard fuel s c dmg =
     (if fst p1 then Inr (0, snd p1)
      else if fst p2 then Inr (0, s2)
      else if dmg' > 0 then
        bindE (if hp (fieldCard s4 c) = 0 then RemoveCard fuel s4 c True else Inr s4) (\<lambda>s5.
        bindE (if hp (fieldCard s5 c) > 0 \<and> hasAttr (demon s5) ATTR_LACERATE
               then bindE (SimDemonLacerate (fieldCard s5 c)) (\<lambda>c'. Inr (setFieldCard s5 c c'))
               else Inr s5) (\<lambda>s6. Inr (dmg', s6)))
      else Inr (0, s2))"
    by (simp only: DamageCard_def p1_def p2_def s2_def cc_def dmg'_def hp'_def s3_def s4_def
        split_def Let_def)
  have f2: "field s2 = field s" "field (snd p1) = field s"
    using dodges_frame [of s c ATTR_NIMBLE_SOUL] dodges_frame [of "snd p1" c ATTR_DODGE]
    by (simp_all add: s2_def p2_def p1_def)
  then have c2: "cc = fieldCard s c" "fieldCard (snd p1) c = fieldCard s c"
    by (simp_all add: fieldCard_def cc_def)
  show ?thesis
  proof (cases "fst p1 \<or> fst p2 \<or> dmg' \<le> 0")
    case True
    with r unf have "d = 0 \<and> (s' = snd p1 \<or> s' = s2)"
      by (auto split: if_splits)
    with f2 h show ?thesis by (auto simp: fieldCard_def)
  next
    case False
    have c3: "fieldCard s3 c = cc\<lparr>hp := hp'\<rparr>"
      using c f2 by (simp add: s3_def fieldCard_setFieldCard)
    have n3: "numCards (field s3) = numCards (field s)"
      "length (cards (field s3)) = length (cards (field s))"
      using f2 by (simp_all add: s3_def)
    note T = DamageCard_triggers_frame [of "attr (fieldCard s3 c)" c s3, folded s4_def]
    from False r unf obtain s5 s6 where
      k: "(if hp (fieldCard s4 c) = 0 then RemoveCard fuel s4 c True else Inr s4) = Inr s5" and
      l: "(if hp (fieldCard s5 c) > 0 \<and> hasAttr (demon s5) ATTR_LACERATE
           then bindE (SimDemonLacerate (fieldCard s5 c)) (\<lambda>c'. Inr (setFieldCard s5 c c'))
           else Inr s5) = Inr s6" and
      d: "d = dmg'" and s': "s' = s6"
      by (auto simp: bindE_Inr_iff)
    from False d have dpos: "0 < d" by simp
    have h4: "hp (fieldCard s4 c) = hp'" "maxHp (fieldCard s4 c) = maxHp cc"
      "attr (fieldCard s4 c) = attr cc"
      using T c3 by simp_all
    show ?thesis
    proof (cases "hp' = 0")
      case True
      with k h4 have rc: "RemoveCard fuel s4 c True = Inr s5" by simp
      have nr4: "\<not> hasAttr (fieldCard s4 c) ATTR_D_REANIMATE"
        using nr h4 c2 by (simp add: hasAttr_iff)
      have c4: "c < length (cards (field s4))" using T n3 c by simp
      note F = RemoveCard_frame [OF rc c4 nr4]
      from F have dead5: "fieldCard s5 c = DeadCard" by simp
      with l DeadCard_dead have "s6 = s5" by simp
      with s' dead5 F T n3 have "fieldCard s' c = DeadCard"
        "numCards (field s') = numCards (field s)" by simp_all
      moreover from True d have "hp cc \<le> d" by (simp add: hp'_def split: if_splits)
      ultimately show ?thesis using dpos DeadCard_dead c2 by simp
    next
      case False
      with k h4 have e5: "s5 = s4" by simp
      from False h have hv: "hp' = hp cc - d" "0 < hp'" "d < hp cc"
        using d c2 by (simp_all add: hp'_def split: if_splits)
      have "hp (fieldCard s6 c) = hp' \<and> maxHp (fieldCard s6 c) = maxHp cc \<and>
            numCards (field s6) = numCards (field s4)"
      proof (cases "hp (fieldCard s5 c) > 0 \<and> hasAttr (demon s5) ATTR_LACERATE")
        case True
        with l obtain c' where a: "SimDemonLacerate (fieldCard s5 c) = Inr c'"
          and e6: "s6 = setFieldCard s5 c c'"
          by (auto simp: bindE_Inr_iff)
        have "c < length (cards (field s5))" using e5 T n3 c by simp
        with e6 have "fieldCard s6 c = c'" by (simp add: fieldCard_setFieldCard)
        with SimDemonLacerate_frame [OF a] e5 h4 e6 show ?thesis by simp
      next
        case False
        with l have "s6 = s5" by simp
        with e5 h4 show ?thesis by simp
      qed
      with s' T n3 hv h dpos c2 show ?thesis by simp
    qed
  qed
qed


lemma DamageCard_fuel:
  assumes c: "c < length (cards (field s))"
    and nr: "\<not> hasAttr (fieldCard s c) ATTR_D_REANIMATE"
    and fu: "numAttr (fieldCard s c) + 3 \<le> fuel"
  shows "DamageCard fuel s c dmg \<noteq> Inl OutOfFuel"
proof -
  define p1 where "p1 = dodges s c ATTR_NIMBLE_SOUL"
  define p2 where "p2 = dodges (snd p1) c ATTR_DODGE"
  define s2 where "s2 = snd p2"
  define cc where "cc = fieldCard s2 c"
  define dmg' where "dmg' = ReducePhysDmg cc dmg"
  define hp' where "hp' = (if hp cc - dmg' \<le> 0 then 0 else hp cc - dmg')"
  define s3 where "s3 = setFieldCard s2 c (cc\<lparr>hp := hp'\<rparr>)"
  define s4 where "s4 = DamageCard_triggers (attr (fieldCard s3 c)) c s3"
  define k where "k = (if hp (fieldCard s4 c) = 0 then RemoveCard fuel s4 c True else Inr s4)"
  have unf: "DamageCard fuel s c dmg =
     (if fst p1 then Inr (0, snd p1)
      else if fst p2 then Inr (0, s2)
      else if dmg' > 0 then
        bindE k (\<lambda>s5.
        bindE (if hp (fieldCard s5 c) > 0 \<and> hasAttr (demon s5) ATTR_LACERATE
               then bindE (SimDemonLacerate (fieldCard s5 c)) (\<lambda>c'. Inr (setFieldCard s5 c c'))
               else Inr s5) (\<lambda>s6. Inr (dmg', s6)))
      else Inr (0, s2))"
    by (simp only: DamageCard_def p1_def p2_def s2_def cc_def dmg'_def hp'_def s3_def s4_def
        k_def split_def Let_def)
  have f2: "field s2 = field s"
    using dodges_frame [of s c ATTR_NIMBLE_SOUL] dodges_frame [of "snd p1" c ATTR_DODGE]
    by (simp add: s2_def p2_def p1_def)
  then have c2: "cc = fieldCard s c" by (simp add: fieldCard_def cc_def)
  have c3: "fieldCard s3 c = cc\<lparr>hp := hp'\<rparr>"
    using c f2 by (simp add: s3_def fieldCard_setFieldCard)
  have n3: "length (cards (field s3)) = length (cards (field s))"
    using f2 by (simp add: s3_def)
  note T = DamageCard_triggers_frame [of "attr (fieldCard s3 c)" c s3, folded s4_def]
  have a4: "attr (fieldCard s4 c) = attr (fieldCard s c)" using T c3 c2 by simp
  have "RemoveCard fuel s4 c True \<noteq> Inl OutOfFuel"
    by (rule RemoveCard_fuel) (use a4 fu T n3 c nr in \<open>simp_all add: hasAttr_iff\<close>)
  then have kk: "k \<noteq> Inl OutOfFuel" by (simp add: k_def)
  have lac: "bindE (if b then bindE (SimDemonLacerate x) (\<lambda>c'. Inr (g c')) else Inr y)
               (\<lambda>s6. Inr (dmg', s6)) \<noteq> Inl OutOfFuel" for b x g y
    by (cases "SimDemonLacerate x")
      (auto simp: SimDemonLacerate_def AddAttr_def split: if_splits)
  show ?thesis
  proof (cases k)
    case (Inl e)
    with kk unf show ?thesis by simp
  next
    case (Inr s5)
    show ?thesis
      unfolding unf Inr using lac [of _ "fieldCard s5 c" "setFieldCard s5 c" s5]
      by (simp del: bindE_Inl)
  qed
qed

lemma RemoveCard_mark_dead:
  assumes "RemoveCard_mark s c = Inr s1" and "c < length (cards (field s))"
  shows "hp (fieldCard s1 c) = 0 \<and> hasAttr (fieldCard s1 c) ATTR_DEAD"
  using RemoveCard_mark_Inr [OF assms(1)] assms(2)
  by (simp add: fieldCard_setFieldCard hasAttr_iff DeadAttr_def)




end
